theory Spec2Isabelle
  imports Complex_Main
begin

section \<open>Conventions of the embedding\<close>

text \<open>
  The development embeds \<^verbatim>\<open>localgraphclustering/GraphLocal.py\<close>.

  \<^item> \<^verbatim>\<open>float64\<close> values are idealised as \<^typ>\<open>real\<close>: arithmetic is exact, there is no
    rounding, no NaN and no infinity.
  \<^item> Vertex ids and offsets stored in \<^verbatim>\<open>ai\<close>/\<^verbatim>\<open>aj\<close> (numpy \<^verbatim>\<open>vtype\<close>/\<^verbatim>\<open>itype\<close>, caller
    chosen integer widths) are \<^typ>\<open>nat\<close>; they are taken to fit their width.
  \<^item> Indices supplied by a caller are Python integers, \<^typ>\<open>int\<close>, and go through numpy's
    index rule: a negative index counts from the end, anything else out of range raises.
  \<^item> A raised exception is the \<open>Inl\<close> branch of a sum.
\<close>

datatype error = IndexError | ValueError | Exception | AssertionError | OverflowError

text \<open>\<^verbatim>\<open>a[i]\<close> for a numpy array (or Python list) \<open>a\<close> and a Python integer \<open>i\<close>.\<close>

definition np_index :: "nat \<Rightarrow> int \<Rightarrow> error + nat" where
  "np_index len i =
     (if 0 \<le> i \<and> i < int len then Inr (nat i)
      else if - int len \<le> i \<and> i < 0 then Inr (nat (int len + i))
      else Inl IndexError)"

definition np_getitem :: "'a list \<Rightarrow> int \<Rightarrow> error + 'a" where
  "np_getitem a i = (case np_index (length a) i of Inl e \<Rightarrow> Inl e | Inr k \<Rightarrow> Inr (a ! k))"

text \<open>\<^verbatim>\<open>a[lo:hi]\<close> for non-negative bounds: the bounds are clipped to the length.\<close>

definition np_slice :: "'a list \<Rightarrow> nat \<Rightarrow> nat \<Rightarrow> 'a list" where
  "np_slice a lo hi = drop lo (take hi a)"

text \<open>Normalising a whole index list \<open>R\<close>, as fancy indexing \<^verbatim>\<open>a[R]\<close> does before it reads.\<close>

fun np_indices :: "nat \<Rightarrow> int list \<Rightarrow> error + nat list" where
  "np_indices len [] = Inr []"
| "np_indices len (r # rs) =
     (case np_index len r of
        Inl e \<Rightarrow> Inl e
      | Inr k \<Rightarrow> (case np_indices len rs of Inl e \<Rightarrow> Inl e | Inr ks \<Rightarrow> Inr (k # ks)))"

section \<open>The compressed sparse row matrix\<close>

text \<open>
  A \<^verbatim>\<open>scipy.sparse.csr_matrix\<close> of shape \<open>shape \<times> shape\<close>: row \<open>i\<close> owns the positions
  \<open>indptr[i] ..< indptr[i+1]\<close> of \<open>indices\<close> (column ids) and \<open>data\<close> (weights).
\<close>

record csr =
  shape :: nat
  indptr :: "nat list"
  indices :: "nat list"
  data :: "real list"

definition row_range :: "nat list \<Rightarrow> nat \<Rightarrow> nat list" where
  "row_range ip i = [ip ! i ..< ip ! Suc i]"

definition row_cols :: "csr \<Rightarrow> nat \<Rightarrow> nat list" where
  "row_cols A i = map (\<lambda>k. indices A ! k) (row_range (indptr A) i)"

definition row_data :: "csr \<Rightarrow> nat \<Rightarrow> real list" where
  "row_data A i = map (\<lambda>k. data A ! k) (row_range (indptr A) i)"

text \<open>The stored entries \<open>((u, v), w)\<close> in storage order.\<close>

definition entries :: "csr \<Rightarrow> ((nat \<times> nat) \<times> real) list" where
  "entries A =
     concat (map (\<lambda>i. map (\<lambda>k. ((i, indices A ! k), data A ! k)) (row_range (indptr A) i))
                 [0..<shape A])"

text \<open>The structural invariant scipy maintains for every matrix object it hands out.\<close>

definition csr_wf :: "csr \<Rightarrow> bool" where
  "csr_wf A \<longleftrightarrow>
     length (indptr A) = Suc (shape A) \<and> indptr A ! 0 = 0 \<and> sorted (indptr A) \<and>
     indptr A ! shape A = length (indices A) \<and> length (data A) = length (indices A) \<and>
     (\<forall>j\<in>set (indices A). j < shape A)"

text \<open>\<^verbatim>\<open>np.ravel(A.sum(axis=1))\<close>: the row sums.\<close>

definition csr_sum_axis1 :: "csr \<Rightarrow> real list" where
  "csr_sum_axis1 A = map (\<lambda>i. sum_list (row_data A i)) [0..<shape A]"

text \<open>\<^verbatim>\<open>A.dot(x)\<close>: the sparse matrix-vector product.\<close>

definition csr_dot :: "csr \<Rightarrow> real list \<Rightarrow> real list" where
  "csr_dot A x =
     map (\<lambda>i. sum_list (map (\<lambda>k. data A ! k * x ! (indices A ! k)) (row_range (indptr A) i)))
         [0..<shape A]"

text \<open>\<^verbatim>\<open>np.dot(x, y)\<close> for two vectors.\<close>

definition np_dot :: "real list \<Rightarrow> real list \<Rightarrow> real" where
  "np_dot x y = sum_list (map2 (*) x y)"

section \<open>The graph object and its statistics\<close>

text \<open>The attributes of a fully built \<^verbatim>\<open>GraphLocal\<close>, by value.\<close>

record graph =
  num_vertices :: nat
  num_edges :: nat
  weighted :: bool
  adjacency_matrix :: csr
  ai :: "nat list"
  aj :: "nat list"
  d :: "real list"
  dn :: "real list"
  d_sqrt :: "real list"
  dn_sqrt :: "real list"
  vol_G :: real

text \<open>
  \<^verbatim>\<open>compute_statistics\<close>. The mask assignment \<^verbatim>\<open>dn[d != 0] = 1.0 / d[d != 0]\<close> over
  \<^verbatim>\<open>np.zeros(n)\<close> is the pointwise reciprocal with \<open>0\<close> kept where the degree is \<open>0\<close>.
\<close>

definition compute_statistics :: "graph \<Rightarrow> graph" where
  "compute_statistics g =
     (let dd = csr_sum_axis1 (adjacency_matrix g);
          dnn = map (\<lambda>x. if x \<noteq> 0 then 1 / x else 0) dd
      in g\<lparr>d := dd, dn := dnn, d_sqrt := map sqrt dd, dn_sqrt := map sqrt dnn,
            vol_G := sum_list dd\<rparr>)"

text \<open>\<^verbatim>\<open>discard_weights\<close>: \<^verbatim>\<open>data.fill(1.0)\<close>, clear the flag, recompute.\<close>

definition discard_weights :: "graph \<Rightarrow> graph" where
  "discard_weights g =
     compute_statistics
       (g\<lparr>adjacency_matrix :=
             (adjacency_matrix g)\<lparr>data := replicate (length (data (adjacency_matrix g))) 1\<rparr>,
           weighted := False\<rparr>)"

text \<open>
  What construction establishes and every method relies on: the matrix is well formed,
  \<open>ai\<close>/\<open>aj\<close> are its offset and column arrays, and the statistics are those of the
  current matrix.
\<close>

definition graph_inv :: "graph \<Rightarrow> bool" where
  "graph_inv g \<longleftrightarrow>
     csr_wf (adjacency_matrix g) \<and> shape (adjacency_matrix g) = num_vertices g \<and>
     num_edges g = length (data (adjacency_matrix g)) \<and>
     ai g = indptr (adjacency_matrix g) \<and> aj g = indices (adjacency_matrix g) \<and>
     d g = csr_sum_axis1 (adjacency_matrix g) \<and>
     dn g = map (\<lambda>x. if x \<noteq> 0 then 1 / x else 0) (d g) \<and>
     d_sqrt g = map sqrt (d g) \<and> dn_sqrt g = map sqrt (dn g) \<and>
     vol_G g = sum_list (d g)"

section \<open>Neighbours\<close>

text \<open>\<^verbatim>\<open>self.aj[self.ai[vertex]:self.ai[vertex+1]].tolist()\<close>\<close>

definition neighbors :: "graph \<Rightarrow> int \<Rightarrow> error + nat list" where
  "neighbors g vertex =
     (case np_getitem (ai g) vertex of
        Inl e \<Rightarrow> Inl e
      | Inr lo \<Rightarrow>
          (case np_getitem (ai g) (vertex + 1) of
             Inl e \<Rightarrow> Inl e
           | Inr hi \<Rightarrow> Inr (np_slice (aj g) lo hi)))"

section \<open>Scoring a vertex set\<close>

text \<open>The dictionary \<^verbatim>\<open>locals()\<close> that \<^verbatim>\<open>set_scores\<close> returns, after its \<^verbatim>\<open>del\<close> statements.\<close>

record scores =
  voltrue :: real
  cut :: real
  voleff :: real
  sizetrue :: int
  sizeeff :: int
  edgestrue :: real
  edgeseff :: real
  cond :: real
  isop :: real

text \<open>\<^verbatim>\<open>v = np.zeros(n); v[R] = 1\<close> for already normalised indices.\<close>

definition ones_at :: "nat \<Rightarrow> nat list \<Rightarrow> real list" where
  "ones_at n R = map (\<lambda>i. if i \<in> set R then 1 else 0) [0..<n]"

text \<open>
  Modelled from the spec: \<^verbatim>\<open>set_scores_cpp\<close> comes from the package's \<^verbatim>\<open>cpp\<close> module, which
  is not among the sources. Section 4.4 describes the accelerated strategy: iterate only
  the rows of the vertices in \<open>R\<close>, test each neighbour for membership in \<open>R\<close>, and
  accumulate the cut contributions directly; \<open>volTrue\<close> is the sum of \<open>degree[v]\<close> over
  \<open>R\<close>. The arguments are those of the call site.
\<close>

definition set_scores_cpp ::
  "nat \<Rightarrow> nat list \<Rightarrow> nat list \<Rightarrow> real list \<Rightarrow> real list \<Rightarrow> int list \<Rightarrow> bool \<Rightarrow> real \<times> real" where
  "set_scores_cpp n ai' aj' a d' R weighted' =
     (let Rn = map nat R
      in (sum_list (map (\<lambda>v. d' ! v) Rn),
          sum_list (map (\<lambda>v. sum_list (map (\<lambda>k. if aj' ! k \<in> set Rn then 0 else a ! k)
                                           (row_range ai' v))) Rn)))"

text \<open>The part of \<^verbatim>\<open>set_scores\<close> after the two strategies have produced \<open>voltrue\<close> and \<open>cut\<close>.\<close>

definition finish_scores :: "graph \<Rightarrow> int list \<Rightarrow> real \<Rightarrow> real \<Rightarrow> scores" where
  "finish_scores g R vt ct =
     (let ve = min vt (vol_G g - vt);
          st = int (length R);
          se = (if ve < vt then int (num_vertices g) - st else st)
      in \<lparr>voltrue = vt, cut = ct, voleff = ve, sizetrue = st, sizeeff = se,
          edgestrue = vt - ct, edgeseff = ve - ct,
          cond = (if ve \<noteq> 0 then ct / ve else 1),
          isop = (if se \<noteq> 0 then ct / real_of_int se else 1)\<rparr>)"

definition set_scores :: "graph \<Rightarrow> int list \<Rightarrow> bool \<Rightarrow> error + scores" where
  "set_scores g R cpp =
     (if cpp then
        (case set_scores_cpp (num_vertices g) (ai g) (aj g) (data (adjacency_matrix g)) (d g) R
                (weighted g) of
           (vt, ct) \<Rightarrow> Inr (finish_scores g R vt ct))
      else
        (case np_indices (length (d g)) R of
           Inl e \<Rightarrow> Inl e
         | Inr Rd \<Rightarrow>
            (case np_indices (num_vertices g) R of
               Inl e \<Rightarrow> Inl e
             | Inr Rv \<Rightarrow>
                (let vt = sum_list (map (\<lambda>v. d g ! v) Rd);
                     v_ones_R = ones_at (num_vertices g) Rv;
                     ct = vt - np_dot v_ones_R (csr_dot (adjacency_matrix g) v_ones_R)
                 in Inr (finish_scores g R vt ct)))))"

section \<open>Local extrema\<close>

text \<open>
  The inner loop over \<^verbatim>\<open>range(ai[i], ai[i+1])\<close>: \<open>Inr False\<close> is the \<^verbatim>\<open>break\<close> with
  \<^verbatim>\<open>lmin = False\<close>, \<open>Inr True\<close> the loop running to its end.
\<close>

fun scan_row :: "nat list \<Rightarrow> real list \<Rightarrow> real \<Rightarrow> bool \<Rightarrow> nat \<Rightarrow> real \<Rightarrow> nat list \<Rightarrow> error + bool" where
  "scan_row aj' vals factor strict i vali [] = Inr True"
| "scan_row aj' vals factor strict i vali (nzi # rest) =
     (if length aj' \<le> nzi then Inl IndexError
      else let v = aj' ! nzi in
        if v = i then scan_row aj' vals factor strict i vali rest
        else if length vals \<le> v then Inl IndexError
        else if strict then
          (if vali < factor * vals ! v then scan_row aj' vals factor strict i vali rest
           else Inr False)
        else
          (if vali \<le> factor * vals ! v then scan_row aj' vals factor strict i vali rest
           else Inr False))"

text \<open>The outer loop \<^verbatim>\<open>for i in range(n)\<close>, with \<open>minverts\<close> as the accumulator.\<close>

fun extrema_loop ::
  "graph \<Rightarrow> real list \<Rightarrow> real \<Rightarrow> bool \<Rightarrow> nat list \<Rightarrow> nat list \<Rightarrow> error + nat list" where
  "extrema_loop g vals factor strict [] minverts = Inr minverts"
| "extrema_loop g vals factor strict (i # rest) minverts =
     (if length vals \<le> i \<or> length (ai g) \<le> Suc i then Inl IndexError
      else
        (case scan_row (aj g) vals factor strict i (factor * vals ! i) (row_range (ai g) i) of
           Inl e \<Rightarrow> Inl e
         | Inr lmin \<Rightarrow>
             extrema_loop g vals factor strict rest
               (if lmin then minverts @ [i] else minverts)))"

definition local_extrema :: "graph \<Rightarrow> real list \<Rightarrow> bool \<Rightarrow> bool \<Rightarrow> error + nat list \<times> real list" where
  "local_extrema g vals strict reverse =
     (let n = shape (adjacency_matrix g);
          factor = (if reverse then - 1 else 1)
      in case extrema_loop g vals factor strict [0..<n] [] of
           Inl e \<Rightarrow> Inl e
         | Inr minverts \<Rightarrow> Inr (minverts, map (\<lambda>i. vals ! i) minverts))"

section \<open>Construction\<close>

subsection \<open>The scipy operations construction uses\<close>

text \<open>
  scipy is a library, not part of the sources; its operations are embedded by what they
  return. Every matrix scipy builds from coordinates or from an elementwise operation is
  in canonical form: rows in order, column ids ascending and without repetition inside a
  row. \<open>csr_build n st val\<close> is the canonical \<open>n \<times> n\<close> matrix that stores exactly the
  positions \<open>st\<close>, with the values \<open>val\<close>.
\<close>

definition csr_build :: "nat \<Rightarrow> (nat \<Rightarrow> nat \<Rightarrow> bool) \<Rightarrow> (nat \<Rightarrow> nat \<Rightarrow> real) \<Rightarrow> csr" where
  "csr_build n st val =
     (let rows = map (\<lambda>i. map (\<lambda>j. (j, val i j)) (filter (st i) [0..<n])) [0..<n]
      in \<lparr>shape = n,
          indptr = map (\<lambda>i. length (concat (take i rows))) [0..<Suc n],
          indices = map fst (concat rows),
          data = map snd (concat rows)\<rparr>)"

text \<open>Whether position \<open>(i, j)\<close> is stored, and the value \<^verbatim>\<open>A[i, j]\<close> (\<open>0\<close> where nothing is stored).\<close>

definition csr_stored :: "csr \<Rightarrow> nat \<Rightarrow> nat \<Rightarrow> bool" where
  "csr_stored A i j \<longleftrightarrow> j \<in> set (row_cols A i)"

definition csr_get :: "csr \<Rightarrow> nat \<Rightarrow> nat \<Rightarrow> real" where
  "csr_get A i j = sum_list (map snd (filter (\<lambda>p. fst p = j) (zip (row_cols A i) (row_data A i))))"

text \<open>
  \<^verbatim>\<open>sp.csr_matrix((w, (row, col)), shape=(n, n))\<close>: the coordinate constructor rejects arrays
  of different lengths, a negative shape, and an index that is negative or not below the
  shape, each with \<^verbatim>\<open>ValueError\<close>; repeated coordinates are summed; a weight \<open>0\<close> stays
  stored.
\<close>

definition directed_weight :: "int list \<Rightarrow> int list \<Rightarrow> real list \<Rightarrow> nat \<Rightarrow> nat \<Rightarrow> real" where
  "directed_weight row col w i j =
     sum_list (map snd (filter (\<lambda>e. fst e = (int i, int j)) (zip (zip row col) w)))"

definition csr_matrix_coo :: "real list \<Rightarrow> int list \<Rightarrow> int list \<Rightarrow> int \<Rightarrow> error + csr" where
  "csr_matrix_coo w row col n =
     (if length row \<noteq> length w \<or> length col \<noteq> length w \<or> n < 0 \<or>
         (\<exists>i\<in>set row. i < 0 \<or> n \<le> i) \<or> (\<exists>j\<in>set col. j < 0 \<or> n \<le> j)
      then Inl ValueError
      else Inr (csr_build (nat n)
                  (\<lambda>i j. (int i, int j) \<in> set (zip row col))
                  (directed_weight row col w)))"

text \<open>\<^verbatim>\<open>A.T\<close>, read as a row-major matrix again.\<close>

definition csr_transpose :: "csr \<Rightarrow> csr" where
  "csr_transpose A = csr_build (shape A) (\<lambda>i j. csr_stored A j i) (\<lambda>i j. csr_get A j i)"

text \<open>
  An elementwise operation of two sparse matrices of the same shape: it visits the positions
  stored in either operand, reads a missing one as \<open>0\<close>, and stores a result only where it
  is not \<open>0\<close>. A boolean result is stored as \<open>1\<close>.
\<close>

definition csr_binop :: "(real \<Rightarrow> real \<Rightarrow> real) \<Rightarrow> csr \<Rightarrow> csr \<Rightarrow> csr" where
  "csr_binop f A B =
     csr_build (shape A)
       (\<lambda>i j. (csr_stored A i j \<or> csr_stored B i j) \<and> f (csr_get A i j) (csr_get B i j) \<noteq> 0)
       (\<lambda>i j. f (csr_get A i j) (csr_get B i j))"

definition csr_ne :: "csr \<Rightarrow> csr \<Rightarrow> csr" where
  "csr_ne = csr_binop (\<lambda>a b. if a \<noteq> b then 1 else 0)"

definition csr_gt :: "csr \<Rightarrow> csr \<Rightarrow> csr" where
  "csr_gt = csr_binop (\<lambda>a b. if a > b then 1 else 0)"

definition csr_multiply :: "csr \<Rightarrow> csr \<Rightarrow> csr" where
  "csr_multiply = csr_binop (*)"

definition csr_minus :: "csr \<Rightarrow> csr \<Rightarrow> csr" where
  "csr_minus = csr_binop (-)"

definition csr_plus :: "csr \<Rightarrow> csr \<Rightarrow> csr" where
  "csr_plus = csr_binop (+)"

text \<open>\<^verbatim>\<open>(A != A.T).sum() == 0\<close>\<close>

definition is_symmetric :: "csr \<Rightarrow> bool" where
  "is_symmetric A \<longleftrightarrow> sum_list (data (csr_ne A (csr_transpose A))) = 0"

text \<open>
  The symmetrisation both constructors apply to a matrix that is not symmetric:
  \<^verbatim>\<open>sel = A.T > A\<close>, then \<^verbatim>\<open>A - A.multiply(sel) + A.T.multiply(sel)\<close>.
\<close>

definition symmetrized :: "csr \<Rightarrow> csr" where
  "symmetrized A =
     (let sel = csr_gt (csr_transpose A) A
      in csr_plus (csr_minus A (csr_multiply A sel)) (csr_multiply (csr_transpose A) sel))"

text \<open>\<^verbatim>\<open>x.max()\<close> of a numpy array: \<^verbatim>\<open>ValueError\<close> on an empty one.\<close>

definition np_max :: "'a::linorder list \<Rightarrow> error + 'a" where
  "np_max xs = (case xs of [] \<Rightarrow> Inl ValueError | x # rest \<Rightarrow> Inr (fold max rest x))"

subsection \<open>The object under construction\<close>

text \<open>
  The attributes of a \<^verbatim>\<open>GraphLocal\<close> instance while it is being built: \<open>None\<close> is an
  attribute that has not been assigned. \<^verbatim>\<open>GraphLocal()\<close> starts with none.
\<close>

record attrs =
  at_num_vertices :: "int option"
  at_num_edges :: "nat option"
  at_weighted :: "bool option"
  at_adjacency_matrix :: "csr option"
  at_ai :: "nat list option"
  at_aj :: "nat list option"
  at_d :: "real list option"
  at_dn :: "real list option"
  at_d_sqrt :: "real list option"
  at_dn_sqrt :: "real list option"
  at_vol_G :: "real option"

definition no_attrs :: attrs where
  "no_attrs = \<lparr>at_num_vertices = None, at_num_edges = None, at_weighted = None,
               at_adjacency_matrix = None, at_ai = None, at_aj = None, at_d = None,
               at_dn = None, at_d_sqrt = None, at_dn_sqrt = None, at_vol_G = None\<rparr>"

text \<open>
  The last statements of both constructors, none of which can raise:
  \<^verbatim>\<open>_num_edges = nnz\<close>, \<^verbatim>\<open>compute_statistics()\<close>, \<^verbatim>\<open>ai = itype(indptr)\<close>,
  \<^verbatim>\<open>aj = vtype(indices)\<close>. After them every attribute has been assigned, so the object is
  a \<^typ>\<open>graph\<close>; the statistics fields are placeholders until \<open>compute_statistics\<close> fills them.
\<close>

definition complete_graph :: "nat \<Rightarrow> bool \<Rightarrow> csr \<Rightarrow> graph" where
  "complete_graph n w A =
     compute_statistics
       \<lparr>num_vertices = n, num_edges = length (data A), weighted = w, adjacency_matrix = A,
        ai = indptr A, aj = indices A, d = [], dn = [], d_sqrt = [], dn_sqrt = [], vol_G = 0\<rparr>"

text \<open>
  The code both constructors share, from \<^verbatim>\<open>self._weighted = False\<close> on; \<open>self\<close> already
  carries \<open>A\<close> as its \<^verbatim>\<open>adjacency_matrix\<close>. A failure returns the exception together with the
  attributes as they are at that moment.
\<close>

definition symmetrize_and_finish :: "attrs \<Rightarrow> nat \<Rightarrow> csr \<Rightarrow> (error \<times> attrs) + graph" where
  "symmetrize_and_finish self n A =
     (let w = list_ex (\<lambda>x. x \<noteq> 1) (data A);
          s1 = self\<lparr>at_weighted := Some w\<rparr>
      in if is_symmetric A then Inr (complete_graph n w A)
         else
           let A' = symmetrized A;
               s2 = s1\<lparr>at_adjacency_matrix := Some A'\<rparr>
           in if \<not> is_symmetric A' then Inl (AssertionError, s2)
              else Inr (complete_graph n w A'))"

text \<open>
  \<^verbatim>\<open>list_to_gl\<close>. \<^verbatim>\<open>np.array(source, dtype=vtype)\<close> makes the ids unsigned, so they are
  \<^typ>\<open>nat\<close> here.
\<close>

definition list_to_gl :: "attrs \<Rightarrow> nat list \<Rightarrow> nat list \<Rightarrow> real list \<Rightarrow> (error \<times> attrs) + graph" where
  "list_to_gl self source target weights =
     (let s1 = self\<lparr>at_num_edges := Some (length source)\<rparr>
      in case np_max source of
           Inl e \<Rightarrow> Inl (e, s1)
         | Inr ms \<Rightarrow>
            (case np_max target of
               Inl e \<Rightarrow> Inl (e, s1)
             | Inr mt \<Rightarrow>
                (let n = max (ms + 1) (mt + 1);
                     s2 = s1\<lparr>at_num_vertices := Some (int n)\<rparr>
                 in case csr_matrix_coo weights (map int source) (map int target) (int n) of
                      Inl e \<Rightarrow> Inl (e, s2)
                    | Inr A \<Rightarrow>
                        symmetrize_and_finish (s2\<lparr>at_adjacency_matrix := Some A\<rparr>) n A)))"




text \<open>
  \<^verbatim>\<open>read_graph\<close> for \<^verbatim>\<open>file_type == 'edgelist'\<close>, from the data frame \<^verbatim>\<open>pd.read_csv\<close>
  returned: \<open>df_shape1\<close> is \<^verbatim>\<open>df.shape[1]\<close>, the number of columns, and the three columns
  are those that exist. The ids are pandas integers, so they may be negative.
\<close>

record dataframe =
  df_shape1 :: nat
  df_col0 :: "int list"
  df_col1 :: "int list"
  df_col2 :: "real list"

definition read_graph :: "attrs \<Rightarrow> dataframe \<Rightarrow> (error \<times> attrs) + graph" where
  "read_graph self df =
     (if df_shape1 df < 2 then Inl (IndexError, self)
      else if df_shape1 df \<noteq> 2 \<and> df_shape1 df \<noteq> 3 then Inl (Exception, self)
      else
        let source = df_col0 df; target = df_col1 df;
            weights = (if df_shape1 df = 2 then replicate (length source) 1 else df_col2 df)
        in case np_max source of
             Inl e \<Rightarrow> Inl (e, self)
           | Inr ms \<Rightarrow>
              (case np_max target of
                 Inl e \<Rightarrow> Inl (e, self)
               | Inr mt \<Rightarrow>
                  (let n = max (ms + 1) (mt + 1);
                       s1 = self\<lparr>at_num_vertices := Some n\<rparr>
                   in case csr_matrix_coo weights source target n of
                        Inl e \<Rightarrow> Inl (e, s1)
                      | Inr A \<Rightarrow>
                          symmetrize_and_finish (s1\<lparr>at_adjacency_matrix := Some A\<rparr>) (nat n) A)))"

section \<open>Connected components and the largest component\<close>

text \<open>
  \<^verbatim>\<open>csgraph.connected_components(A, directed=False)\<close> belongs to scipy; it is embedded by
  what it returns: the number of components and, for every vertex, the label of its
  component. An edge is a stored entry in either direction. scipy labels the components
  in the order in which it meets them when it scans the vertices upwards, so the label of a
  component is the number of components whose smallest vertex is smaller.
\<close>

definition adjacent :: "csr \<Rightarrow> nat \<Rightarrow> nat \<Rightarrow> bool" where
  "adjacent A u v \<longleftrightarrow> csr_stored A u v \<or> csr_stored A v u"

definition grow :: "csr \<Rightarrow> nat list \<Rightarrow> nat list" where
  "grow A S = filter (\<lambda>v. v \<in> set S \<or> (\<exists>u\<in>set S. adjacent A u v)) [0..<shape A]"

definition component_of :: "csr \<Rightarrow> nat \<Rightarrow> nat list" where
  "component_of A v = (grow A ^^ shape A) [v]"

definition csgraph_connected_components :: "csr \<Rightarrow> nat \<times> nat list" where
  "csgraph_connected_components A =
     (let reps = map (\<lambda>v. hd (component_of A v)) [0..<shape A]
      in (length (remdups reps),
          map (\<lambda>r. length (remdups (filter (\<lambda>x. x < r) reps))) reps))"

text \<open>
  \<^verbatim>\<open>Counter(xs).most_common(1)[0][0]\<close>: the keys of a counter are in the order of their first
  occurrence, and \<^verbatim>\<open>most_common(1)\<close> takes the first key whose count is maximal. It is
  \<^verbatim>\<open>IndexError\<close> on an empty counter.
\<close>

definition most_common1 :: "nat list \<Rightarrow> error + nat" where
  "most_common1 xs =
     (case rev (remdups (rev xs)) of
        [] \<Rightarrow> Inl IndexError
      | k # ks \<Rightarrow>
          Inr (fold (\<lambda>key best. if count_list xs best < count_list xs key then key else best) ks k))"

text \<open>
  \<^verbatim>\<open>A[nodes, :].tocsc()[:, nodes].tocsr()\<close>: the rows, then the columns, listed in \<open>nodes\<close>;
  position \<open>(a, b)\<close> of the result is position \<open>(nodes[a], nodes[b])\<close> of \<open>A\<close>.
\<close>

definition csr_take :: "csr \<Rightarrow> nat list \<Rightarrow> csr" where
  "csr_take A nodes =
     csr_build (length nodes)
       (\<lambda>a b. csr_stored A (nodes ! a) (nodes ! b))
       (\<lambda>a b. csr_get A (nodes ! a) (nodes ! b))"

section \<open>Objects and arrays in memory\<close>

text \<open>
  Where a claim is about which object or which memory a result is, the graph is an object
  in a heap and its numpy arrays are views of memory blocks. A block is addressed by its
  position in \<open>arrays\<close>, an object by its position in \<open>objects\<close>; allocation appends. The
  bytes of a block are abstracted to the numbers they encode. The sparse matrix keeps
  index arrays of scipy's own index type, which are converted copies of what it is given, so
  they are held by value; its \<^verbatim>\<open>data\<close> is a view.
\<close>

datatype dtype = IntType | Float64

datatype buffer = IntBuf "nat list" | FloatBuf "real list"

record ndarray =
  arr_base :: nat
  arr_dtype :: dtype
  arr_shape :: nat

record csr_obj =
  m_shape :: nat
  m_indptr :: "nat list"
  m_indices :: "nat list"
  m_data :: ndarray

record graph_obj =
  o_num_vertices :: nat
  o_num_edges :: nat
  o_weighted :: bool
  o_vol_G :: real
  o_adjacency_matrix :: csr_obj
  o_ai :: ndarray
  o_aj :: ndarray
  o_d :: ndarray
  o_dn :: ndarray
  o_d_sqrt :: ndarray
  o_dn_sqrt :: ndarray
  o_components :: "nat list option"
  o_number_of_components :: "nat option"

record heap =
  arrays :: "buffer list"
  objects :: "graph_obj list"

definition ints :: "buffer list \<Rightarrow> ndarray \<Rightarrow> nat list" where
  "ints mem a = (case mem ! arr_base a of IntBuf xs \<Rightarrow> xs | FloatBuf xs \<Rightarrow> [])"

definition floats :: "buffer list \<Rightarrow> ndarray \<Rightarrow> real list" where
  "floats mem a = (case mem ! arr_base a of FloatBuf xs \<Rightarrow> xs | IntBuf xs \<Rightarrow> [])"

text \<open>The graph an object stands for: every array read through memory.\<close>

definition load_graph :: "buffer list \<Rightarrow> graph_obj \<Rightarrow> graph" where
  "load_graph mem ob =
     \<lparr>num_vertices = o_num_vertices ob, num_edges = o_num_edges ob, weighted = o_weighted ob,
      adjacency_matrix =
        \<lparr>shape = m_shape (o_adjacency_matrix ob), indptr = m_indptr (o_adjacency_matrix ob),
         indices = m_indices (o_adjacency_matrix ob),
         data = floats mem (m_data (o_adjacency_matrix ob))\<rparr>,
      ai = ints mem (o_ai ob), aj = ints mem (o_aj ob), d = floats mem (o_d ob),
      dn = floats mem (o_dn ob), d_sqrt = floats mem (o_d_sqrt ob),
      dn_sqrt = floats mem (o_dn_sqrt ob), vol_G = o_vol_G ob\<rparr>"

definition graph_at :: "heap \<Rightarrow> nat \<Rightarrow> graph" where
  "graph_at h r = load_graph (arrays h) (objects h ! r)"

text \<open>The arrays of an object, and what makes a reference usable: it and they exist.\<close>

definition obj_arrays :: "graph_obj \<Rightarrow> ndarray list" where
  "obj_arrays ob =
     [o_ai ob, o_aj ob, o_d ob, o_dn ob, o_d_sqrt ob, o_dn_sqrt ob,
      m_data (o_adjacency_matrix ob)]"

definition valid_ref :: "heap \<Rightarrow> nat \<Rightarrow> bool" where
  "valid_ref h r \<longleftrightarrow>
     r < length (objects h) \<and> list_all (\<lambda>a. arr_base a < length (arrays h)) (obj_arrays (objects h ! r))"

text \<open>
  A fresh array holding \<open>b\<close>, as numpy makes for the result of a computation, and a fresh
  object for a graph given by value, as \<^verbatim>\<open>GraphLocal()\<close> followed by the assignments of
  its attributes makes.
\<close>

definition buffer_dtype :: "buffer \<Rightarrow> dtype" where
  "buffer_dtype b = (case b of IntBuf xs \<Rightarrow> IntType | FloatBuf xs \<Rightarrow> Float64)"

definition buffer_length :: "buffer \<Rightarrow> nat" where
  "buffer_length b = (case b of IntBuf xs \<Rightarrow> length xs | FloatBuf xs \<Rightarrow> length xs)"

definition new_array :: "buffer list \<Rightarrow> buffer \<Rightarrow> buffer list \<times> ndarray" where
  "new_array mem b =
     (mem @ [b], \<lparr>arr_base = length mem, arr_dtype = buffer_dtype b, arr_shape = buffer_length b\<rparr>)"

definition new_object :: "heap \<Rightarrow> graph \<Rightarrow> heap \<times> nat" where
  "new_object h g =
     (let (mem1, a) = new_array (arrays h) (FloatBuf (data (adjacency_matrix g)));
          (mem2, dd) = new_array mem1 (FloatBuf (d g));
          (mem3, dnn) = new_array mem2 (FloatBuf (dn g));
          (mem4, dsq) = new_array mem3 (FloatBuf (d_sqrt g));
          (mem5, dnsq) = new_array mem4 (FloatBuf (dn_sqrt g));
          (mem6, ai') = new_array mem5 (IntBuf (ai g));
          (mem7, aj') = new_array mem6 (IntBuf (aj g));
          ob = \<lparr>o_num_vertices = num_vertices g, o_num_edges = num_edges g,
                o_weighted = weighted g, o_vol_G = vol_G g,
                o_adjacency_matrix =
                  \<lparr>m_shape = shape (adjacency_matrix g), m_indptr = indptr (adjacency_matrix g),
                   m_indices = indices (adjacency_matrix g), m_data = a\<rparr>,
                o_ai = ai', o_aj = aj', o_d = dd, o_dn = dnn, o_d_sqrt = dsq, o_dn_sqrt = dnsq,
                o_components = None, o_number_of_components = None\<rparr>
      in (\<lparr>arrays = mem7, objects = objects h @ [ob]\<rparr>, length (objects h)))"

subsection \<open>The largest component\<close>

text \<open>
  \<^verbatim>\<open>largest_component\<close>. \<^verbatim>\<open>connected_components()\<close> stores its two results on \<open>self\<close>. With one
  component the method returns \<open>self\<close>; otherwise it fills a new object, whose attributes
  are those of \<open>complete_graph\<close> for the submatrix of the most frequent label.
\<close>

definition largest_component :: "heap \<Rightarrow> nat \<Rightarrow> error + heap \<times> nat" where
  "largest_component h self =
     (let g = graph_at h self;
          (number, components) = csgraph_connected_components (adjacency_matrix g);
          h1 = h\<lparr>objects := (objects h)
                 [self := (objects h ! self)\<lparr>o_components := Some components,
                                            o_number_of_components := Some number\<rparr>]\<rparr>
      in if number = 1 then Inr (h1, self)
         else
           (case most_common1 components of
              Inl e \<Rightarrow> Inl e
            | Inr what_key \<Rightarrow>
                (let maxccnodes = filter (\<lambda>i. what_key = components ! i) [0..<num_vertices g];
                     g_copy = complete_graph (length maxccnodes) (weighted g)
                                (csr_take (adjacency_matrix g) maxccnodes)
                 in Inr (new_object h1 g_copy))))"

subsection \<open>Export to shared memory and back\<close>

text \<open>
  \<^verbatim>\<open>_load_from_shared(sabuf, dtype, shape)\<close> is \<^verbatim>\<open>np.frombuffer(...).reshape(shape)\<close>: a view of
  the block, no copy. \<^verbatim>\<open>_copy_to_shared(a)\<close> allocates a zeroed \<^verbatim>\<open>RawArray\<close> of the size of
  \<open>a\<close>, views it, copies \<open>a\<close> into the view with \<^verbatim>\<open>np.copyto\<close>, and returns the view and
  the descriptor \<^verbatim>\<open>(sabuf, dtype, shape)\<close>.
\<close>

type_synonym descriptor = "nat \<times> dtype \<times> nat"

definition load_from_shared :: "descriptor \<Rightarrow> ndarray" where
  "load_from_shared desc =
     (case desc of (sabuf, dt, sh) \<Rightarrow> \<lparr>arr_base = sabuf, arr_dtype = dt, arr_shape = sh\<rparr>)"

definition raw_array :: "buffer list \<Rightarrow> dtype \<Rightarrow> nat \<Rightarrow> buffer list \<times> nat" where
  "raw_array mem dt n =
     (mem @ [case dt of IntType \<Rightarrow> IntBuf (replicate n 0) | Float64 \<Rightarrow> FloatBuf (replicate n 0)],
      length mem)"

definition np_copyto :: "buffer list \<Rightarrow> ndarray \<Rightarrow> ndarray \<Rightarrow> buffer list" where
  "np_copyto mem dst src = mem[arr_base dst := mem ! arr_base src]"

definition copy_to_shared :: "buffer list \<Rightarrow> ndarray \<Rightarrow> buffer list \<times> ndarray \<times> descriptor" where
  "copy_to_shared mem a =
     (let (mem1, sabuf) = raw_array mem (arr_dtype a) (arr_shape a);
          sa = load_from_shared (sabuf, arr_dtype a, arr_shape a)
      in (np_copyto mem1 sa a, sa, (sabuf, arr_dtype a, arr_shape a)))"

text \<open>The dictionary \<^verbatim>\<open>sgraphvars\<close>.\<close>

record shared_vars =
  sv_ai :: descriptor
  sv_aj :: descriptor
  sv_d :: descriptor
  sv_dn :: descriptor
  sv_d_sqrt :: descriptor
  sv_dn_sqrt :: descriptor
  sv_a :: descriptor
  sv_n :: nat
  sv_m :: nat
  sv_vol :: real
  sv_weighted :: bool

text \<open>\<^verbatim>\<open>sp.csr_matrix((data, indices, indptr), shape=(n, n))\<close> over arrays in memory.\<close>

definition csr_matrix_arrays :: "buffer list \<Rightarrow> ndarray \<Rightarrow> ndarray \<Rightarrow> ndarray \<Rightarrow> nat \<Rightarrow> csr_obj" where
  "csr_matrix_arrays mem dat idx ptr n =
     \<lparr>m_shape = n, m_indptr = ints mem ptr, m_indices = ints mem idx, m_data = dat\<rparr>"

definition to_shared :: "heap \<Rightarrow> nat \<Rightarrow> heap \<times> shared_vars" where
  "to_shared h self =
     (let ob = objects h ! self;
          (mem1, ai', s_ai) = copy_to_shared (arrays h) (o_ai ob);
          (mem2, aj', s_aj) = copy_to_shared mem1 (o_aj ob);
          (mem3, d', s_d) = copy_to_shared mem2 (o_d ob);
          (mem4, dn', s_dn) = copy_to_shared mem3 (o_dn ob);
          (mem5, d_sqrt', s_d_sqrt) = copy_to_shared mem4 (o_d_sqrt ob);
          (mem6, dn_sqrt', s_dn_sqrt) = copy_to_shared mem5 (o_dn_sqrt ob);
          (mem7, a', s_a) = copy_to_shared mem6 (m_data (o_adjacency_matrix ob));
          ob' = ob\<lparr>o_ai := ai', o_aj := aj', o_d := d', o_dn := dn', o_d_sqrt := d_sqrt',
                   o_dn_sqrt := dn_sqrt',
                   o_adjacency_matrix := csr_matrix_arrays mem7 a' aj' ai' (o_num_vertices ob)\<rparr>
      in (\<lparr>arrays = mem7, objects = (objects h)[self := ob']\<rparr>,
          \<lparr>sv_ai = s_ai, sv_aj = s_aj, sv_d = s_d, sv_dn = s_dn, sv_d_sqrt = s_d_sqrt,
           sv_dn_sqrt = s_dn_sqrt, sv_a = s_a, sv_n = o_num_vertices ob, sv_m = o_num_edges ob,
           sv_vol = o_vol_G ob, sv_weighted = o_weighted ob\<rparr>))"

definition from_shared :: "heap \<Rightarrow> shared_vars \<Rightarrow> heap \<times> nat" where
  "from_shared h sgraphvars =
     (let g_ai = load_from_shared (sv_ai sgraphvars);
          g_aj = load_from_shared (sv_aj sgraphvars);
          g = \<lparr>o_num_vertices = sv_n sgraphvars, o_num_edges = sv_m sgraphvars,
               o_weighted = sv_weighted sgraphvars, o_vol_G = sv_vol sgraphvars,
               o_adjacency_matrix =
                 csr_matrix_arrays (arrays h) (load_from_shared (sv_a sgraphvars)) g_aj g_ai
                   (sv_n sgraphvars),
               o_ai = g_ai, o_aj = g_aj,
               o_d = load_from_shared (sv_d sgraphvars),
               o_dn = load_from_shared (sv_dn sgraphvars),
               o_d_sqrt = load_from_shared (sv_d_sqrt sgraphvars),
               o_dn_sqrt = load_from_shared (sv_dn_sqrt sgraphvars),
               o_components = None, o_number_of_components = None\<rparr>
      in (h\<lparr>objects := objects h @ [g]\<rparr>, length (objects h)))"

section \<open>Specification-side notions\<close>

text \<open>
  The weight of the stored entries with both endpoints in \<open>R\<close>, each stored directed entry
  counted once: the quadratic form \<open>1\<^sub>R\<^sup>T A 1\<^sub>R\<close> of the specification.
\<close>

definition internal_weight :: "csr \<Rightarrow> nat list \<Rightarrow> real" where
  "internal_weight A R =
     sum_list (map snd (filter (\<lambda>e. fst (fst e) \<in> set R \<and> snd (fst e) \<in> set R) (entries A)))"

text \<open>
  The qualification rule of the local-extrema scan, in the words of the specification:
  every neighbour other than the vertex itself is no better (strictly worse, in strict
  mode) after multiplication by the factor.
\<close>

definition qualifies :: "graph \<Rightarrow> real list \<Rightarrow> bool \<Rightarrow> bool \<Rightarrow> nat \<Rightarrow> bool" where
  "qualifies g vals strict reverse i \<longleftrightarrow>
     (let factor = (if reverse then - 1 else 1 :: real)
      in \<forall>j\<in>set (row_cols (adjacency_matrix g) i). j \<noteq> i \<longrightarrow>
           (if strict then factor * vals ! i < factor * vals ! j
            else factor * vals ! i \<le> factor * vals ! j))"

text \<open>
  Symmetry of a matrix by value, and by storage for the entries whose weight is not \<open>0\<close>.
\<close>

definition value_symmetric :: "csr \<Rightarrow> bool" where
  "value_symmetric A \<longleftrightarrow> (\<forall>u<shape A. \<forall>v<shape A. csr_get A u v = csr_get A v u)"

definition nonzero_mirrored :: "csr \<Rightarrow> bool" where
  "nonzero_mirrored A \<longleftrightarrow>
     (\<forall>e\<in>set (entries A). snd e \<noteq> 0 \<longrightarrow> ((snd (fst e), fst (fst e)), snd e) \<in> set (entries A))"

text \<open>The rows of \<open>csr_build\<close>, as lists of column and value.\<close>

definition build_rows :: "nat \<Rightarrow> (nat \<Rightarrow> nat \<Rightarrow> bool) \<Rightarrow> (nat \<Rightarrow> nat \<Rightarrow> real) \<Rightarrow> (nat \<times> real) list list" where
  "build_rows n st val = map (\<lambda>i. map (\<lambda>j. (j, val i j)) (filter (st i) [0..<n])) [0..<n]"

section \<open>A running example: the path on four vertices\<close>

text \<open>
  The graph \<^verbatim>\<open>list_to_gl\<close> builds from the unit-weight edges \<open>(0,1), (1,2), (2,3)\<close>; that
  it is what construction returns is \<open>list_to_gl_path\<close> below.
\<close>

definition path_csr :: csr where
  "path_csr = \<lparr>shape = 4, indptr = [0, 1, 3, 5, 6], indices = [1, 0, 2, 1, 3, 2],
               data = [1, 1, 1, 1, 1, 1]\<rparr>"

definition path_graph :: graph where
  "path_graph = complete_graph 4 False path_csr"

text \<open>
  Further concrete graphs: an edge list that is the single edge \<open>(0, 1)\<close> of weight \<open>0\<close>, and
  one with the two directions of an edge weighted \<open>2\<close> and \<open>3\<close>.
\<close>

definition zero_edge_csr :: csr where
  "zero_edge_csr = \<lparr>shape = 2, indptr = [0, 1, 1], indices = [1], data = [0]\<rparr>"

definition zero_edge_graph :: graph where
  "zero_edge_graph = complete_graph 2 True zero_edge_csr"

definition asym_csr0 :: csr where
  "asym_csr0 = \<lparr>shape = 2, indptr = [0, 1, 2], indices = [1, 0], data = [2, 3]\<rparr>"

definition asym_csr :: csr where
  "asym_csr = \<lparr>shape = 2, indptr = [0, 1, 2], indices = [1, 0], data = [3, 3]\<rparr>"

definition asym_graph :: graph where
  "asym_graph = complete_graph 2 True asym_csr"



text \<open>
  An edge list that repeats the pair \<open>(0, 1)\<close>, with weights \<open>2\<close> and \<open>3\<close>: the matrix before and
  after symmetrisation, the graph, the same with unit weights, and the pattern with every
  weight \<open>1\<close>.
\<close>

definition dup_csr0 :: csr where
  "dup_csr0 = \<lparr>shape = 2, indptr = [0, 1, 1], indices = [1], data = [5]\<rparr>"

definition dup_csr :: csr where
  "dup_csr = \<lparr>shape = 2, indptr = [0, 1, 2], indices = [1, 0], data = [5, 5]\<rparr>"

definition dup_graph :: graph where
  "dup_graph = complete_graph 2 True dup_csr"

definition dup_unit_csr0 :: csr where
  "dup_unit_csr0 = \<lparr>shape = 2, indptr = [0, 1, 1], indices = [1], data = [2]\<rparr>"

definition dup_unit_csr :: csr where
  "dup_unit_csr = \<lparr>shape = 2, indptr = [0, 1, 2], indices = [1, 0], data = [2, 2]\<rparr>"

definition dup_unit_graph :: graph where
  "dup_unit_graph = complete_graph 2 True dup_unit_csr"

definition dup_ones_csr :: csr where
  "dup_ones_csr = \<lparr>shape = 2, indptr = [0, 1, 2], indices = [1, 0], data = [1, 1]\<rparr>"

text \<open>
  What \<^verbatim>\<open>to_shared\<close> leaves behind, written out: the copy of an array at block \<open>k\<close>, the
  object after the export, and the memory after the export (the old blocks followed by one
  new block per array, in the order of the copies).
\<close>

definition shared_copy :: "nat \<Rightarrow> ndarray \<Rightarrow> ndarray" where
  "shared_copy k a = \<lparr>arr_base = k, arr_dtype = arr_dtype a, arr_shape = arr_shape a\<rparr>"

definition exported_obj :: "heap \<Rightarrow> nat \<Rightarrow> graph_obj" where
  "exported_obj h r =
     (let ob = objects h ! r; L = length (arrays h)
      in ob\<lparr>o_ai := shared_copy L (o_ai ob), o_aj := shared_copy (L + 1) (o_aj ob),
            o_d := shared_copy (L + 2) (o_d ob), o_dn := shared_copy (L + 3) (o_dn ob),
            o_d_sqrt := shared_copy (L + 4) (o_d_sqrt ob),
            o_dn_sqrt := shared_copy (L + 5) (o_dn_sqrt ob),
            o_adjacency_matrix :=
              \<lparr>m_shape = o_num_vertices ob, m_indptr = ints (arrays h) (o_ai ob),
               m_indices = ints (arrays h) (o_aj ob),
               m_data = shared_copy (L + 6) (m_data (o_adjacency_matrix ob))\<rparr>\<rparr>)"

definition exported_arrays :: "heap \<Rightarrow> nat \<Rightarrow> buffer list" where
  "exported_arrays h r =
     arrays h @ map (\<lambda>a. arrays h ! arr_base a) (obj_arrays (objects h ! r))"

text \<open>
  The descriptor \<^verbatim>\<open>(sabuf, dtype, shape)\<close> of a view.
\<close>

definition descriptor_of :: "ndarray \<Rightarrow> descriptor" where
  "descriptor_of a = (arr_base a, arr_dtype a, arr_shape a)"

text \<open>
  A heap holding the path graph as its only object.
\<close>

definition empty_heap :: heap where
  "empty_heap = \<lparr>arrays = [], objects = []\<rparr>"

definition path_heap :: heap where
  "path_heap = fst (new_object empty_heap path_graph)"

text \<open>
  What a call that returns an object gives the caller: the reference, and the graph read
  through it.
\<close>

definition result_ref :: "error + heap \<times> nat \<Rightarrow> error + nat" where
  "result_ref res = (case res of Inl e \<Rightarrow> Inl e | Inr p \<Rightarrow> Inr (snd p))"

definition result_graph :: "error + heap \<times> nat \<Rightarrow> error + graph" where
  "result_graph res = (case res of Inl e \<Rightarrow> Inl e | Inr p \<Rightarrow> Inr (graph_at (fst p) (snd p)))"

text \<open>
  The vertices that carry a given label, in ascending order.
\<close>

definition label_class :: "nat list \<Rightarrow> nat \<Rightarrow> nat list" where
  "label_class labels key = filter (\<lambda>i. key = labels ! i) [0..<length labels]"

text \<open>
  A graph with two components: vertex \<open>0\<close> alone, and the edge between \<open>1\<close> and \<open>2\<close>;
  \<open>two_comp_csr0\<close> is the matrix of the edge list \<open>[(1, 2, 1.0)]\<close> before it is symmetrized.
\<close>

definition two_comp_csr :: csr where
  "two_comp_csr = \<lparr>shape = 3, indptr = [0, 0, 1, 2], indices = [2, 1], data = [1, 1]\<rparr>"

definition two_comp_csr0 :: csr where
  "two_comp_csr0 = \<lparr>shape = 3, indptr = [0, 0, 1, 1], indices = [2], data = [1]\<rparr>"

definition two_comp_graph :: graph where
  "two_comp_graph = complete_graph 3 False two_comp_csr"

definition two_comp_heap :: heap where
  "two_comp_heap = fst (new_object empty_heap two_comp_graph)"

section \<open>Facts about lists and sums\<close>

lemma np_slice_upt: "lo \<le> hi \<Longrightarrow> hi \<le> length a \<Longrightarrow> np_slice a lo hi = map (\<lambda>k. a ! k) [lo..<hi]"
  unfolding np_slice_def
  by (simp add: list_eq_iff_nth_eq)

lemma np_indices_in_range:
  "\<forall>r\<in>set R. 0 \<le> r \<and> r < int len \<Longrightarrow> np_indices len R = Inr (map nat R)"
  by (induction R) (simp_all add: np_index_def)

lemma sum_list_filter_if:
  "sum_list (map f (filter P xs)) = sum_list (map (\<lambda>x. if P x then f x else (0::real)) xs)"
  by (induction xs) simp_all

lemma sum_list_indicator_distinct:
  assumes "distinct R" "\<forall>v\<in>set R. v < n"
  shows "sum_list (map (\<lambda>i. if i \<in> set R then F i else (0::real)) [0..<n]) = sum_list (map F R)"
proof -
  have "sum_list (map (\<lambda>i. if i \<in> set R then F i else 0) [0..<n])
          = (\<Sum>i\<in>{0..<n}. if i \<in> set R then F i else 0)"
    by (simp add: sum_list_distinct_conv_sum_set)
  also have "\<dots> = (\<Sum>i\<in>{0..<n} \<inter> set R. F i)"
    by (simp add: sum.inter_restrict)
  also have "{0..<n} \<inter> set R = set R" using assms(2) by auto
  also have "(\<Sum>i\<in>set R. F i) = sum_list (map F R)"
    using assms(1) by (simp add: sum_list_distinct_conv_sum_set)
  finally show ?thesis .
qed

lemma sum_list_concat_real: "sum_list (concat xss) = sum_list (map sum_list xss)" for xss :: "real list list"
  by (induction xss) simp_all

lemma sum_list_map2_same:
  "sum_list (map2 (*) (map f xs) (map h xs)) = sum_list (map (\<lambda>i. f i * h i) xs)" for f :: "'a \<Rightarrow> real"
  by (induction xs) simp_all

lemma sum_list_diff_real:
  "sum_list (map f xs) - sum_list (map h xs) = sum_list (map (\<lambda>x. f x - h x) xs)" for f :: "'a \<Rightarrow> real"
  by (induction xs) simp_all

lemma filter_eq_distinct: "distinct xs \<Longrightarrow> filter (\<lambda>x. x = j) xs = (if j \<in> set xs then [j] else [])"
  by (induction xs) auto

lemma concat_take_Suc: "i < length xss \<Longrightarrow> concat (take (Suc i) xss) = concat (take i xss) @ xss ! i"
  by (simp add: take_Suc_conv_app_nth)

lemma middle_slice: "map (\<lambda>k. (a @ b @ c) ! k) [length a ..< length a + length b] = b"
proof -
  have "[length a ..< length a + length b] = map (\<lambda>i. i + length a) [0..<length b]"
    by (simp add: map_add_upt add.commute)
  then have "map (\<lambda>k. (a @ b @ c) ! k) [length a ..< length a + length b]
           = map (\<lambda>i. (a @ b @ c) ! (length a + i)) [0..<length b]"
    by (simp add: o_def add.commute)
  also have "\<dots> = map (\<lambda>i. (b @ c) ! i) [0..<length b]"
    by (simp only: nth_append_length_plus)
  also have "\<dots> = map (\<lambda>i. b ! i) [0..<length b]"
    by (rule map_cong[OF refl]) (simp add: nth_append)
  finally show ?thesis by (simp add: map_nth)
qed

lemma concat_slice:
  assumes "i < length xss"
  shows "map (\<lambda>k. concat xss ! k) [length (concat (take i xss)) ..< length (concat (take (Suc i) xss))]
           = xss ! i"
proof -
  have "xss = take i xss @ xss ! i # drop (Suc i) xss" by (rule id_take_nth_drop[OF assms])
  then have "concat xss = concat (take i xss @ xss ! i # drop (Suc i) xss)" by simp
  then have split: "concat xss = concat (take i xss) @ xss ! i @ concat (drop (Suc i) xss)"
    by (simp only: concat_append concat.simps)
  have "length (concat (take (Suc i) xss)) = length (concat (take i xss)) + length (xss ! i)"
    by (simp add: concat_take_Suc[OF assms])
  then show ?thesis using middle_slice[of "concat (take i xss)" "xss ! i" "concat (drop (Suc i) xss)"]
    by (simp only: split[symmetric])
qed

lemma length_concat_take_mono: "i \<le> j \<Longrightarrow> length (concat (take i xss)) \<le> length (concat (take j xss))"
proof -
  assume "i \<le> j"
  then have "take j xss = take i xss @ take (j - i) (drop i xss)"
    by (metis le_add_diff_inverse take_add)
  then show ?thesis by simp
qed

section \<open>Facts about well-formed matrices\<close>

lemma indptr_mono: "csr_wf A \<Longrightarrow> i \<le> j \<Longrightarrow> j \<le> shape A \<Longrightarrow> indptr A ! i \<le> indptr A ! j"
  unfolding csr_wf_def by (simp add: sorted_iff_nth_mono)

lemma indptr_le: "csr_wf A \<Longrightarrow> i \<le> shape A \<Longrightarrow> indptr A ! i \<le> length (indices A)"
  using indptr_mono[of A i "shape A"] unfolding csr_wf_def by simp

lemma row_range_bounds:
  assumes "csr_wf A" "i < shape A" "k \<in> set (row_range (indptr A) i)"
  shows "k < length (indices A) \<and> indices A ! k < shape A"
proof -
  have "k < indptr A ! Suc i" using assms(3) by (simp add: row_range_def)
  also have "\<dots> \<le> length (indices A)" using indptr_le[OF assms(1), of "Suc i"] assms(2) by simp
  finally have "k < length (indices A)" .
  then show ?thesis using assms(1) by (simp add: csr_wf_def)
qed

lemma entries_rows: "entries A = concat (map (\<lambda>i. zip (map (Pair i) (row_cols A i)) (row_data A i)) [0..<shape A])"
  by (simp add: entries_def row_cols_def row_data_def zip_map_map zip_same_conv_map o_def)

section \<open>The canonical form\<close>

lemma csr_build_alt:
  "csr_build n st val = \<lparr>shape = n,
          indptr = map (\<lambda>i. length (concat (take i (build_rows n st val)))) [0..<Suc n],
          indices = map fst (concat (build_rows n st val)),
          data = map snd (concat (build_rows n st val))\<rparr>"
  by (simp add: csr_build_def build_rows_def Let_def)

lemma shape_csr_build [simp]: "shape (csr_build n st val) = n"
  by (simp add: csr_build_def Let_def)

lemma row_pairs_csr_build:
  assumes "i < n"
  shows "map (\<lambda>k. concat (build_rows n st val) ! k) (row_range (indptr (csr_build n st val)) i)
         = map (\<lambda>j. (j, val i j)) (filter (st i) [0..<n])"
proof -
  have len: "i < length (build_rows n st val)" using assms by (simp add: build_rows_def)
  have "row_range (indptr (csr_build n st val)) i =
          [length (concat (take i (build_rows n st val))) ..< length (concat (take (Suc i) (build_rows n st val)))]"
    using assms unfolding csr_build_alt row_range_def
    by (simp add: nth_append del: upt_Suc)
  then show ?thesis using concat_slice[OF len] assms by (simp add: build_rows_def)
qed

lemma row_range_csr_build_lt:
  assumes "i < n" "k \<in> set (row_range (indptr (csr_build n st val)) i)"
  shows "k < length (concat (build_rows n st val))"
proof -
  have "k < length (concat (take (Suc i) (build_rows n st val)))"
    using assms unfolding csr_build_alt row_range_def by (simp add: nth_append del: upt_Suc)
  also have "\<dots> \<le> length (concat (take n (build_rows n st val)))"
    using assms(1) by (intro length_concat_take_mono) simp
  also have "\<dots> = length (concat (build_rows n st val))" by (simp add: build_rows_def)
  finally show ?thesis .
qed

lemma row_cols_csr_build:
  assumes "i < n"
  shows "row_cols (csr_build n st val) i = filter (st i) [0..<n]"
proof -
  have "row_cols (csr_build n st val) i
      = map (\<lambda>k. fst (concat (build_rows n st val) ! k)) (row_range (indptr (csr_build n st val)) i)"
    unfolding row_cols_def
    by (rule map_cong[OF refl]) (use row_range_csr_build_lt[OF assms] in \<open>simp add: csr_build_alt\<close>)
  also have "\<dots> = map fst (map (\<lambda>k. concat (build_rows n st val) ! k) (row_range (indptr (csr_build n st val)) i))"
    by (simp add: o_def)
  finally show ?thesis by (simp add: row_pairs_csr_build[OF assms] o_def)
qed

lemma row_data_csr_build:
  assumes "i < n"
  shows "row_data (csr_build n st val) i = map (val i) (filter (st i) [0..<n])"
proof -
  have "row_data (csr_build n st val) i
      = map (\<lambda>k. snd (concat (build_rows n st val) ! k)) (row_range (indptr (csr_build n st val)) i)"
    unfolding row_data_def
    by (rule map_cong[OF refl]) (use row_range_csr_build_lt[OF assms] in \<open>simp add: csr_build_alt\<close>)
  also have "\<dots> = map snd (map (\<lambda>k. concat (build_rows n st val) ! k) (row_range (indptr (csr_build n st val)) i))"
    by (simp add: o_def)
  finally show ?thesis by (simp add: row_pairs_csr_build[OF assms] o_def)
qed

lemma csr_wf_csr_build: "csr_wf (csr_build n st val)"
proof -
  let ?rows = "build_rows n st val"
  have s: "sorted (map (\<lambda>i. length (concat (take i ?rows))) [0..<Suc n])"
    unfolding sorted_iff_nth_mono
    by (simp add: length_concat_take_mono nth_append del: upt_Suc)
  have l: "length ?rows = n" by (simp add: build_rows_def)
  have r: "\<forall>j\<in>set (map fst (concat ?rows)). j < n" by (auto simp: build_rows_def)
  have n: "map (\<lambda>i. length (concat (take i ?rows))) [0..<Suc n] ! n = length (concat ?rows)"
    using l by (simp add: nth_append del: upt_Suc)
  have z: "map (\<lambda>i. length (concat (take i ?rows))) [0..<Suc n] ! 0 = 0"
    by (simp add: nth_append del: upt_Suc)
  show ?thesis unfolding csr_wf_def csr_build_alt using s r n z by (simp del: upt_Suc)
qed

lemma csr_stored_csr_build: "i < n \<Longrightarrow> csr_stored (csr_build n st val) i j \<longleftrightarrow> j < n \<and> st i j"
  by (auto simp add: csr_stored_def row_cols_csr_build)

lemma csr_get_csr_build: "i < n \<Longrightarrow> csr_get (csr_build n st val) i j = (if j < n \<and> st i j then val i j else 0)"
proof -
  assume i: "i < n"
  have "zip (row_cols (csr_build n st val) i) (row_data (csr_build n st val) i)
          = map (\<lambda>j. (j, val i j)) (filter (st i) [0..<n])"
    by (simp add: row_cols_csr_build[OF i] row_data_csr_build[OF i] zip_map2 zip_same_conv_map)
  then have "csr_get (csr_build n st val) i j
      = sum_list (map (val i) (filter (\<lambda>x. x = j) (filter (st i) [0..<n])))"
    by (simp add: csr_get_def filter_map o_def)
  also have "\<dots> = (if j < n \<and> st i j then val i j else 0)"
    by (subst filter_eq_distinct) auto
  finally show ?thesis .
qed

lemma entries_csr_build:
  "((u, v), w) \<in> set (entries (csr_build n st val)) \<longleftrightarrow> u < n \<and> v < n \<and> st u v \<and> w = val u v"
proof -
  have "set (entries (csr_build n st val)) = (\<Union>i\<in>{0..<n}. (\<lambda>j. ((i, j), val i j)) ` {j. j < n \<and> st i j})"
    unfolding entries_rows
    by (auto simp add: row_cols_csr_build row_data_csr_build zip_map_map zip_same_conv_map)
  then show ?thesis by auto
qed

section \<open>Elementwise operations and symmetrisation\<close>

lemma csr_get_not_stored: "\<not> csr_stored A i j \<Longrightarrow> csr_get A i j = 0"
proof -
  assume "\<not> csr_stored A i j"
  then have "j \<notin> fst ` set (zip (row_cols A i) (row_data A i))"
    by (auto simp: csr_stored_def dest: set_zip_leftD)
  then have "filter (\<lambda>p. fst p = j) (zip (row_cols A i) (row_data A i)) = []"
    by (auto simp: filter_empty_conv)
  then show ?thesis by (simp add: csr_get_def)
qed

lemma csr_get_nonzero_stored: "csr_get A i j \<noteq> 0 \<Longrightarrow> csr_stored A i j"
  using csr_get_not_stored by blast

lemma csr_build_cong:
  assumes "\<And>i j. i < n \<Longrightarrow> j < n \<Longrightarrow> st i j = st' i j"
    and "\<And>i j. i < n \<Longrightarrow> j < n \<Longrightarrow> st i j \<Longrightarrow> val i j = val' i j"
  shows "csr_build n st val = csr_build n st' val'"
proof -
  have "map (\<lambda>j. (j, val i j)) (filter (st i) [0..<n]) = map (\<lambda>j. (j, val' i j)) (filter (st' i) [0..<n])"
    if "i < n" for i
  proof -
    have "filter (st i) [0..<n] = filter (st' i) [0..<n]"
      by (rule filter_cong[OF refl]) (use assms(1) that in simp)
    moreover have "map (\<lambda>j. (j, val i j)) (filter (st i) [0..<n]) = map (\<lambda>j. (j, val' i j)) (filter (st i) [0..<n])"
      by (rule map_cong[OF refl]) (use assms(2) that in simp)
    ultimately show ?thesis by simp
  qed
  then have "build_rows n st val = build_rows n st' val'"
    unfolding build_rows_def by (intro map_cong[OF refl]) simp
  then show ?thesis by (simp add: csr_build_alt)
qed

lemma csr_transpose_get:
  "i < shape A \<Longrightarrow> j < shape A \<Longrightarrow> csr_get (csr_transpose A) i j = csr_get A j i"
  by (simp add: csr_transpose_def csr_get_csr_build csr_get_not_stored)

lemma csr_transpose_stored:
  "i < shape A \<Longrightarrow> csr_stored (csr_transpose A) i j \<longleftrightarrow> j < shape A \<and> csr_stored A j i"
  by (simp add: csr_transpose_def csr_stored_csr_build)

lemma shape_csr_transpose [simp]: "shape (csr_transpose A) = shape A"
  by (simp add: csr_transpose_def)

lemma shape_csr_binop [simp]: "shape (csr_binop f A B) = shape A"
  by (simp add: csr_binop_def)

lemma csr_binop_get:
  assumes "f 0 0 = 0" "i < shape A" "j < shape A"
  shows "csr_get (csr_binop f A B) i j = f (csr_get A i j) (csr_get B i j)"
  using assms by (auto simp add: csr_binop_def csr_get_csr_build csr_get_not_stored)

lemma csr_binop_stored:
  assumes "f 0 0 = 0" "i < shape A" "j < shape A"
  shows "csr_stored (csr_binop f A B) i j \<longleftrightarrow> f (csr_get A i j) (csr_get B i j) \<noteq> 0"
proof -
  have "csr_stored A i j \<or> csr_stored B i j" if "f (csr_get A i j) (csr_get B i j) \<noteq> 0"
  proof (rule ccontr)
    assume "\<not> (csr_stored A i j \<or> csr_stored B i j)"
    then have "csr_get A i j = 0" "csr_get B i j = 0" by (simp_all add: csr_get_not_stored)
    then show False using that assms(1) by simp
  qed
  then show ?thesis using assms by (auto simp add: csr_binop_def csr_stored_csr_build)
qed

lemma csr_build_self:
  "csr_build n st val = csr_build n (csr_stored (csr_build n st val)) (csr_get (csr_build n st val))"
  by (rule csr_build_cong) (simp_all add: csr_stored_csr_build csr_get_csr_build)

lemma csr_binop_canonical:
  "csr_binop f A B = csr_build (shape A) (csr_stored (csr_binop f A B)) (csr_get (csr_binop f A B))"
  unfolding csr_binop_def by (rule csr_build_self)

lemma data_csr_build_set:
  "set (data (csr_build n st val)) = {val i j | i j. i < n \<and> j < n \<and> st i j}"
  by (auto simp add: csr_build_alt build_rows_def image_iff) force+

lemma sum_list_all_ones: "\<forall>x\<in>set xs. x = (1::real) \<Longrightarrow> sum_list xs = real (length xs)"
  by (induction xs) simp_all

lemma is_symmetric_iff:
  "is_symmetric A \<longleftrightarrow> (\<forall>i<shape A. \<forall>j<shape A. csr_get A i j = csr_get A j i)"
proof -
  let ?n = "shape A"
  let ?st = "\<lambda>i j. (csr_stored A i j \<or> csr_stored (csr_transpose A) i j) \<and>
                (if csr_get A i j \<noteq> csr_get (csr_transpose A) i j then 1 else 0) \<noteq> (0::real)"
  let ?val = "\<lambda>i j. if csr_get A i j \<noteq> csr_get (csr_transpose A) i j then 1 else (0::real)"
  have ne: "csr_ne A (csr_transpose A) = csr_build ?n ?st ?val"
    by (simp add: csr_ne_def csr_binop_def)
  have ones: "\<forall>x\<in>set (data (csr_build ?n ?st ?val)). x = 1"
    unfolding data_csr_build_set by auto
  have "is_symmetric A \<longleftrightarrow> data (csr_build ?n ?st ?val) = []"
    unfolding is_symmetric_def ne using sum_list_all_ones[OF ones] by auto
  also have "\<dots> \<longleftrightarrow> (\<forall>i<?n. \<forall>j<?n. \<not> ?st i j)"
    using data_csr_build_set[of ?n ?st ?val] by (auto simp del: set_empty simp add: set_empty[symmetric])
  also have "\<dots> \<longleftrightarrow> (\<forall>i<?n. \<forall>j<?n. csr_get A i j = csr_get A j i)"
  proof (intro all_cong imp_cong refl)
    fix i j assume ij: "i < ?n" "j < ?n"
    show "(\<not> ?st i j) \<longleftrightarrow> csr_get A i j = csr_get A j i"
    proof (cases "csr_stored A i j \<or> csr_stored A j i")
      case True
      then show ?thesis using ij by (auto simp add: csr_transpose_get csr_transpose_stored)
    next
      case False
      then have "csr_get A i j = 0" "csr_get A j i = 0" by (simp_all add: csr_get_not_stored)
      then show ?thesis using ij False by (simp add: csr_transpose_get csr_transpose_stored)
    qed
  qed
  finally show ?thesis .
qed

lemma shape_symmetrized [simp]: "shape (symmetrized A) = shape A"
  by (simp add: symmetrized_def Let_def csr_plus_def csr_minus_def)

lemma symmetrized_get:
  assumes "i < shape A" "j < shape A"
  shows "csr_get (symmetrized A) i j = max (csr_get A i j) (csr_get A j i)"
  using assms
  by (simp add: symmetrized_def Let_def csr_plus_def csr_minus_def csr_multiply_def csr_gt_def
      csr_binop_get csr_transpose_get max_def)

lemma symmetrized_stored:
  assumes "i < shape A" "j < shape A"
  shows "csr_stored (symmetrized A) i j \<longleftrightarrow> max (csr_get A i j) (csr_get A j i) \<noteq> 0"
  using assms
  by (simp add: symmetrized_def Let_def csr_plus_def csr_minus_def csr_multiply_def csr_gt_def
      csr_binop_get csr_binop_stored csr_transpose_get max_def)

lemma symmetrized_is_symmetric: "is_symmetric (symmetrized A)"
  by (simp add: is_symmetric_iff symmetrized_get max.commute)

lemma symmetrized_canonical:
  "symmetrized A = csr_build (shape A) (\<lambda>i j. max (csr_get A i j) (csr_get A j i) \<noteq> 0)
                     (\<lambda>i j. max (csr_get A i j) (csr_get A j i))"
proof -
  have "symmetrized A = csr_build (shape A) (csr_stored (symmetrized A)) (csr_get (symmetrized A))"
    using csr_binop_canonical[of "(+)" "csr_minus A (csr_multiply A (csr_gt (csr_transpose A) A))"
        "csr_multiply (csr_transpose A) (csr_gt (csr_transpose A) A)"]
    by (simp add: symmetrized_def Let_def csr_plus_def csr_minus_def)
  also have "\<dots> = csr_build (shape A) (\<lambda>i j. max (csr_get A i j) (csr_get A j i) \<noteq> 0)
                     (\<lambda>i j. max (csr_get A i j) (csr_get A j i))"
    by (rule csr_build_cong) (simp_all add: symmetrized_get symmetrized_stored)
  finally show ?thesis .
qed

section \<open>The path graph is built and satisfies the invariant\<close>

lemma graph_inv_complete_graph:
  "csr_wf A \<Longrightarrow> shape A = n \<Longrightarrow> graph_inv (complete_graph n w A)"
  by (simp add: graph_inv_def complete_graph_def compute_statistics_def Let_def)

lemma csr_wf_path_csr: "csr_wf path_csr"
  by (simp add: csr_wf_def path_csr_def nth_Cons')

lemma graph_inv_path_graph: "graph_inv path_graph"
  unfolding path_graph_def by (rule graph_inv_complete_graph[OF csr_wf_path_csr]) (simp add: path_csr_def)

lemma coo_path: "csr_matrix_coo [1, 1, 1] [0, 1, 2] [1, 2, 3] 4
    = Inr \<lparr>shape = 4, indptr = [0, 1, 2, 3, 3], indices = [1, 2, 3], data = [1, 1, 1]\<rparr>"
  by code_simp

lemma asym_path: "\<not> is_symmetric \<lparr>shape = 4, indptr = [0, 1, 2, 3, 3], indices = [1, 2, 3], data = [1, 1, 1]\<rparr>"
  by code_simp

lemma sym_path:
  "symmetrized \<lparr>shape = 4, indptr = [0, 1, 2, 3, 3], indices = [1, 2, 3], data = [1, 1, 1]\<rparr> = path_csr"
  by code_simp

lemma sym_path_ok: "is_symmetric path_csr"
  by code_simp

lemma list_to_gl_path: "list_to_gl no_attrs [0, 1, 2] [1, 2, 3] [1, 1, 1] = Inr path_graph"
  using asym_path sym_path sym_path_ok
  by (simp add: list_to_gl_def np_max_def coo_path symmetrize_and_finish_def Let_def path_graph_def)
     (simp add: eval_nat_numeral)

lemma d_path_graph: "d path_graph = [1, 2, 2, 1]" "vol_G path_graph = 6" "num_vertices path_graph = 4"
  "adjacency_matrix path_graph = path_csr" "ai path_graph = [0, 1, 3, 5, 6]" "aj path_graph = [1, 0, 2, 1, 3, 2]"
  by (simp_all add: path_graph_def complete_graph_def compute_statistics_def Let_def csr_sum_axis1_def
      row_data_def row_range_def path_csr_def upt_rec nth_Cons')

lemma internal_weight_path: "internal_weight path_csr [0, Suc 0] = 2"
  by code_simp

lemma row_cols_path:
  "row_cols path_csr 0 = [Suc 0]" "row_cols path_csr (Suc 0) = [0, Suc (Suc 0)]"
  "row_cols path_csr (Suc (Suc 0)) = [Suc 0, Suc (Suc (Suc 0))]"
  "row_cols path_csr (Suc (Suc (Suc 0))) = [Suc (Suc 0)]"
  by (simp_all add: row_cols_def row_range_def path_csr_def upt_rec eval_nat_numeral)

section \<open>Scoring\<close>

lemma ones_at_nth: "j < n \<Longrightarrow> ones_at n R ! j = (if j \<in> set R then 1 else 0)"
  by (simp add: ones_at_def)

lemma row_term:
  assumes "csr_wf A" "i < shape A"
  shows "sum_list (map (\<lambda>k. data A ! k * ones_at (shape A) R ! (indices A ! k)) (row_range (indptr A) i))
       = sum_list (map (\<lambda>k. if indices A ! k \<in> set R then data A ! k else 0) (row_range (indptr A) i))"
proof -
  have "data A ! k * ones_at (shape A) R ! (indices A ! k) = (if indices A ! k \<in> set R then data A ! k else 0)"
    if "k \<in> set (row_range (indptr A) i)" for k
    using row_range_bounds[OF assms that] by (simp add: ones_at_nth)
  then show ?thesis by (intro arg_cong[where f = sum_list] map_cong) simp_all
qed

lemma quadratic_form_rows:
  assumes "csr_wf A"
  shows "np_dot (ones_at (shape A) R) (csr_dot A (ones_at (shape A) R))
       = sum_list (map (\<lambda>i. if i \<in> set R
                              then sum_list (map (\<lambda>k. if indices A ! k \<in> set R then data A ! k else 0)
                                                 (row_range (indptr A) i))
                              else 0) [0..<shape A])"
proof -
  have "np_dot (ones_at (shape A) R) (csr_dot A (ones_at (shape A) R))
      = sum_list (map (\<lambda>i. (if i \<in> set R then 1 else 0) *
           sum_list (map (\<lambda>k. data A ! k * ones_at (shape A) R ! (indices A ! k)) (row_range (indptr A) i)))
           [0..<shape A])"
    unfolding np_dot_def csr_dot_def ones_at_def[of "shape A" R, THEN eq_reflection, symmetric]
    by (subst (1) ones_at_def) (rule sum_list_map2_same)
  also have "\<dots> = sum_list (map (\<lambda>i. (if i \<in> set R then 1 else 0) *
           sum_list (map (\<lambda>k. if indices A ! k \<in> set R then data A ! k else 0) (row_range (indptr A) i)))
           [0..<shape A])"
    by (rule arg_cong[where f = sum_list], rule map_cong) (simp_all add: row_term[OF assms])
  also have "\<dots> = sum_list (map (\<lambda>i. if i \<in> set R
                              then sum_list (map (\<lambda>k. if indices A ! k \<in> set R then data A ! k else 0)
                                                 (row_range (indptr A) i))
                              else 0) [0..<shape A])"
    by (rule arg_cong[where f = sum_list], rule map_cong) simp_all
  finally show ?thesis .
qed

lemma internal_weight_rows:
  "internal_weight A R
       = sum_list (map (\<lambda>i. if i \<in> set R
                              then sum_list (map (\<lambda>k. if indices A ! k \<in> set R then data A ! k else 0)
                                                 (row_range (indptr A) i))
                              else 0) [0..<shape A])"
proof -
  have "internal_weight A R = sum_list (map (\<lambda>i. sum_list (map (\<lambda>k.
           if i \<in> set R \<and> indices A ! k \<in> set R then data A ! k else 0) (row_range (indptr A) i))) [0..<shape A])"
    by (simp add: internal_weight_def sum_list_filter_if entries_def map_concat sum_list_concat_real o_def
          cong: if_cong)
  also have "\<dots> = sum_list (map (\<lambda>i. if i \<in> set R
                              then sum_list (map (\<lambda>k. if indices A ! k \<in> set R then data A ! k else 0)
                                                 (row_range (indptr A) i))
                              else 0) [0..<shape A])"
    by (rule arg_cong[where f = sum_list], rule map_cong) simp_all
  finally show ?thesis .
qed

lemma quadratic_form_entries:
  "csr_wf A \<Longrightarrow> np_dot (ones_at (shape A) R) (csr_dot A (ones_at (shape A) R)) = internal_weight A R"
  by (simp add: quadratic_form_rows internal_weight_rows)

lemma set_scores_reference_eq:
  assumes inv: "graph_inv g" and rng: "\<forall>r\<in>set R. 0 \<le> r \<and> r < int (num_vertices g)"
  shows "set_scores g R False =
           Inr (finish_scores g R (sum_list (map (\<lambda>r. d g ! nat r) R))
                  (sum_list (map (\<lambda>r. d g ! nat r) R)
                     - internal_weight (adjacency_matrix g) (map nat R)))"
proof -
  let ?A = "adjacency_matrix g"
  from inv have wf: "csr_wf ?A" and sh: "shape ?A = num_vertices g"
    and dd: "d g = csr_sum_axis1 ?A" by (simp_all add: graph_inv_def)
  have ld: "length (d g) = num_vertices g" using dd sh by (simp add: csr_sum_axis1_def)
  have q: "np_dot (ones_at (num_vertices g) (map nat R)) (csr_dot ?A (ones_at (num_vertices g) (map nat R)))
             = internal_weight ?A (map nat R)"
    using quadratic_form_entries[OF wf, of "map nat R"] sh by simp
  show ?thesis
    by (simp add: set_scores_def ld np_indices_in_range[OF rng] q Let_def o_def)
qed

lemma degree_row:
  assumes "graph_inv g" "v < num_vertices g"
  shows "d g ! v = sum_list (map (\<lambda>k. data (adjacency_matrix g) ! k) (row_range (ai g) v))"
  using assms by (simp add: graph_inv_def csr_sum_axis1_def row_data_def)

lemma accelerated_cut:
  assumes inv: "graph_inv g" and dist: "distinct R" and rng: "\<forall>v\<in>set R. v < num_vertices g"
  shows "sum_list (map (\<lambda>v. sum_list (map (\<lambda>k. if aj g ! k \<in> set R then 0
                                               else data (adjacency_matrix g) ! k)
                                        (row_range (ai g) v))) R)
         = sum_list (map (\<lambda>v. d g ! v) R) - internal_weight (adjacency_matrix g) R"
proof -
  let ?A = "adjacency_matrix g"
  from inv have sh: "shape ?A = num_vertices g"
    and a: "ai g = indptr ?A" "aj g = indices ?A" by (simp_all add: graph_inv_def)
  let ?inner = "\<lambda>v. sum_list (map (\<lambda>k. if indices ?A ! k \<in> set R then data ?A ! k else 0)
                                  (row_range (indptr ?A) v))"
  have iw: "internal_weight ?A R = sum_list (map ?inner R)"
    unfolding internal_weight_rows sh by (rule sum_list_indicator_distinct[OF dist rng])
  have "sum_list (map (\<lambda>v. d g ! v) R) - internal_weight ?A R
          = sum_list (map (\<lambda>v. d g ! v - ?inner v) R)"
    by (simp add: iw sum_list_diff_real)
  also have "\<dots> = sum_list (map (\<lambda>v. sum_list (map (\<lambda>k. if aj g ! k \<in> set R then 0 else data ?A ! k)
                                        (row_range (ai g) v))) R)"
  proof (intro arg_cong[where f = sum_list] map_cong refl)
    fix v assume "v \<in> set R"
    then have "v < num_vertices g" using rng by simp
    then show "d g ! v - ?inner v
        = sum_list (map (\<lambda>k. if aj g ! k \<in> set R then 0 else data ?A ! k) (row_range (ai g) v))"
      by (simp add: degree_row[OF inv] a sum_list_diff_real) (intro arg_cong[where f = sum_list] map_cong, simp_all)
  qed
  finally show ?thesis by simp
qed

lemma set_scores_accelerated_eq:
  assumes inv: "graph_inv g" and dist: "distinct R"
    and rng: "\<forall>r\<in>set R. 0 \<le> r \<and> r < int (num_vertices g)"
  shows "set_scores g R True =
           Inr (finish_scores g R (sum_list (map (\<lambda>r. d g ! nat r) R))
                  (sum_list (map (\<lambda>r. d g ! nat r) R)
                     - internal_weight (adjacency_matrix g) (map nat R)))"
proof -
  have inj: "inj_on nat (set R)"
  proof (rule inj_onI)
    fix x y assume "x \<in> set R" "y \<in> set R" "nat x = nat y"
    moreover from this rng have "0 \<le> x" "0 \<le> y" by simp_all
    ultimately show "x = y" by simp
  qed
  have d2: "distinct (map nat R)" using dist inj by (simp add: distinct_map)
  have r2: "\<forall>v\<in>set (map nat R). v < num_vertices g" using rng by auto
  show ?thesis
    using accelerated_cut[OF inv d2 r2]
    by (simp add: set_scores_def set_scores_cpp_def Let_def o_def)
qed

lemma path_scores:
  "set_scores path_graph [0, 1] False =
     Inr \<lparr>voltrue = 3, cut = 1, voleff = 3, sizetrue = 2, sizeeff = 2, edgestrue = 2,
          edgeseff = 2, cond = 1 / 3, isop = 1 / 2\<rparr>"
proof -
  have r: "\<forall>r\<in>set [0, 1 :: int]. 0 \<le> r \<and> r < int (num_vertices path_graph)"
    by (simp add: d_path_graph)
  show ?thesis
    unfolding set_scores_reference_eq[OF graph_inv_path_graph r]
    by (simp add: d_path_graph internal_weight_path finish_scores_def Let_def)
qed

text \<open>
  Claim C1. For a graph satisfying the construction invariant and a duplicate-free vertex
  list \<open>R\<close> with all ids in \<open>[0, n)\<close>, the reference strategy (\<open>cpp = False\<close>) returns
  \<open>voltrue\<close> = the sum of \<open>d[v]\<close> over \<open>R\<close>; \<open>cut\<close> = \<open>voltrue\<close> minus the weight of the
  stored entries with both endpoints in \<open>R\<close>; \<open>voleff = min voltrue (vol_G - voltrue)\<close>;
  \<open>sizeeff = |R|\<close> if \<open>voleff = voltrue\<close>, else \<open>n - |R|\<close>; \<open>cond = cut / voleff\<close>, or \<open>1\<close>
  when \<open>voleff = 0\<close>; \<open>isop = cut / sizeeff\<close>, or \<open>1\<close> when \<open>sizeeff = 0\<close>. On the path
  graph built from \<open>(0,1), (1,2), (2,3)\<close>, with degrees \<open>[1,2,2,1]\<close> and volume \<open>6\<close>, the set
  \<open>{0, 1}\<close> scores \<open>voltrue = 3\<close>, \<open>cut = 1\<close>, \<open>voleff = 3\<close>, \<open>cond = 1/3\<close>, \<open>sizeeff = 2\<close>,
  \<open>isop = 1/2\<close>.
\<close>

theorem set_scores_reference_spec:
  "(graph_inv g \<longrightarrow> distinct R \<longrightarrow> (\<forall>r\<in>set R. 0 \<le> r \<and> r < int (num_vertices g)) \<longrightarrow>
      (\<exists>s. set_scores g R False = Inr s
         \<and> voltrue s = sum_list (map (\<lambda>r. d g ! nat r) R)
         \<and> cut s = voltrue s - internal_weight (adjacency_matrix g) (map nat R)
         \<and> voleff s = min (voltrue s) (vol_G g - voltrue s)
         \<and> sizetrue s = int (length R)
         \<and> sizeeff s = (if voleff s = voltrue s then int (length R)
                        else int (num_vertices g) - int (length R))
         \<and> edgestrue s = voltrue s - cut s
         \<and> edgeseff s = voleff s - cut s
         \<and> cond s = (if voleff s \<noteq> 0 then cut s / voleff s else 1)
         \<and> isop s = (if sizeeff s \<noteq> 0 then cut s / real_of_int (sizeeff s) else 1)))
   \<and> list_to_gl no_attrs [0, 1, 2] [1, 2, 3] [1, 1, 1] = Inr path_graph
   \<and> d path_graph = [1, 2, 2, 1] \<and> vol_G path_graph = 6
   \<and> set_scores path_graph [0, 1] False =
       Inr \<lparr>voltrue = 3, cut = 1, voleff = 3, sizetrue = 2, sizeeff = 2, edgestrue = 2,
            edgeseff = 2, cond = 1 / 3, isop = 1 / 2\<rparr>"
proof -
  have "\<exists>s. set_scores g R False = Inr s
         \<and> voltrue s = sum_list (map (\<lambda>r. d g ! nat r) R)
         \<and> cut s = voltrue s - internal_weight (adjacency_matrix g) (map nat R)
         \<and> voleff s = min (voltrue s) (vol_G g - voltrue s)
         \<and> sizetrue s = int (length R)
         \<and> sizeeff s = (if voleff s = voltrue s then int (length R)
                        else int (num_vertices g) - int (length R))
         \<and> edgestrue s = voltrue s - cut s
         \<and> edgeseff s = voleff s - cut s
         \<and> cond s = (if voleff s \<noteq> 0 then cut s / voleff s else 1)
         \<and> isop s = (if sizeeff s \<noteq> 0 then cut s / real_of_int (sizeeff s) else 1)"
    if "graph_inv g" and "\<forall>r\<in>set R. 0 \<le> r \<and> r < int (num_vertices g)"
    unfolding set_scores_reference_eq[OF that]
    by (auto simp add: finish_scores_def Let_def min_def)
  then show ?thesis
    using list_to_gl_path d_path_graph(1,2) path_scores by blast
qed

text \<open>
  The general part of C1 applied to the path graph and \<open>R = [0, 1]\<close>.
\<close>

theorem set_scores_reference_spec_witness:
  "graph_inv path_graph \<and> distinct [0, 1 :: int] \<and> num_vertices path_graph = 4
   \<and> (\<exists>s. set_scores path_graph [0, 1] False = Inr s \<and> voltrue s = 3 \<and> cut s = 1)"
proof -
  have r: "\<forall>r\<in>set [0, 1 :: int]. 0 \<le> r \<and> r < int (num_vertices path_graph)"
    by (simp add: d_path_graph)
  have dd: "distinct [0, 1 :: int]" by simp
  from set_scores_reference_spec[of path_graph "[0, 1]"] graph_inv_path_graph dd r
  obtain s where "set_scores path_graph [0, 1] False = Inr s"
    "voltrue s = sum_list (map (\<lambda>r. d path_graph ! nat r) [0, 1])"
    "cut s = voltrue s - internal_weight (adjacency_matrix path_graph) (map nat [0, 1])"
    by blast
  then have "set_scores path_graph [0, 1] False = Inr s \<and> voltrue s = 3 \<and> cut s = 1"
    by (simp add: d_path_graph internal_weight_path)
  then show ?thesis using graph_inv_path_graph d_path_graph(3) by auto
qed

text \<open>
  In exact arithmetic the two strategies of \<^verbatim>\<open>set_scores\<close> coincide: for a graph satisfying
  the construction invariant and a duplicate-free vertex list \<open>R\<close> with all ids in \<open>[0, n)\<close>,
  the accelerated strategy (\<open>cpp = True\<close>) and the reference strategy return the same record.
  The numbers are reals here, so this is a statement about the formulas only: it says
  nothing about the rounding of the two float64 computations, which add the same terms in
  different orders, and it bounds no floating-point error.
\<close>

lemma set_scores_strategies_exact:
  assumes "graph_inv g" and "distinct R" and "\<forall>r\<in>set R. 0 \<le> r \<and> r < int (num_vertices g)"
  shows "\<exists>s. set_scores g R True = Inr s \<and> set_scores g R False = Inr s"
  unfolding set_scores_reference_eq[OF assms(1,3)] set_scores_accelerated_eq[OF assms]
  by simp

lemma set_scores_accelerated_path:
  "set_scores path_graph [0, 1] True =
       Inr \<lparr>voltrue = 3, cut = 1, voleff = 3, sizetrue = 2, sizeeff = 2, edgestrue = 2,
            edgeseff = 2, cond = 1 / 3, isop = 1 / 2\<rparr>"
proof -
  have r: "\<forall>r\<in>set [0, 1 :: int]. 0 \<le> r \<and> r < int (num_vertices path_graph)"
    by (simp add: d_path_graph)
  have dd: "distinct [0, 1 :: int]" by simp
  from set_scores_strategies_exact[OF graph_inv_path_graph dd r]
  have "set_scores path_graph [0, 1] True = set_scores path_graph [0, 1] False" by auto
  then show ?thesis using path_scores by simp
qed

section \<open>Neighbours\<close>

lemma neighbors_row:
  assumes "graph_inv g" "i < num_vertices g"
  shows "np_slice (aj g) (ai g ! i) (ai g ! Suc i) = row_cols (adjacency_matrix g) i"
proof -
  let ?A = "adjacency_matrix g"
  from assms have wf: "csr_wf ?A" and sh: "shape ?A = num_vertices g"
    and a: "ai g = indptr ?A" "aj g = indices ?A" by (simp_all add: graph_inv_def)
  have "indptr ?A ! i \<le> indptr ?A ! Suc i" using indptr_mono[OF wf, of i "Suc i"] assms sh by simp
  moreover have "indptr ?A ! Suc i \<le> length (indices ?A)" using indptr_le[OF wf, of "Suc i"] assms sh by simp
  ultimately show ?thesis by (simp add: np_slice_upt a row_cols_def row_range_def)
qed

text \<open>
  Claim C6, as stated, fails: \<^verbatim>\<open>neighbors\<close> does not raise for every vertex outside
  \<open>[0, n)\<close>. On the path graph (\<open>n = 4\<close>), \<open>neighbors(-1)\<close> returns the empty list and
  \<open>neighbors(-4)\<close> returns the neighbours of vertex \<open>1\<close>.
\<close>

theorem neighbors_negative_counterexample:
  "list_to_gl no_attrs [0, 1, 2] [1, 2, 3] [1, 1, 1] = Inr path_graph
   \<and> num_vertices path_graph = 4 \<and> neighbors path_graph (- 1) = Inr []
   \<and> neighbors path_graph (- 4) = Inr [0, 2]"
  using list_to_gl_path
  by (simp add: d_path_graph neighbors_def np_getitem_def np_index_def np_slice_def)

text \<open>
  Claim C6, amended. For a graph satisfying the construction invariant, \<open>neighbors(v)\<close>
  returns the neighbour ids of \<open>v\<close> in storage order when \<open>v\<close> is in \<open>[0, n)\<close>; it raises
  \<^verbatim>\<open>IndexError\<close> when \<open>v \<ge> n\<close> or \<open>v < -(n+1)\<close>; for \<open>v = -1\<close> it returns the empty list,
  and for \<open>-(n+1) \<le> v < -1\<close> it returns the row of vertex \<open>n + 1 + v\<close>, because the two
  reads of \<open>ai\<close> follow numpy's rule for negative indices.
\<close>

theorem neighbors_spec:
  assumes "graph_inv g"
  shows "(0 \<le> v \<and> v < int (num_vertices g) \<longrightarrow>
            neighbors g v = Inr (row_cols (adjacency_matrix g) (nat v)))
       \<and> (int (num_vertices g) \<le> v \<or> v < - int (num_vertices g) - 1 \<longrightarrow>
            neighbors g v = Inl IndexError)
       \<and> (v = - 1 \<longrightarrow> neighbors g v = Inr [])
       \<and> (- int (num_vertices g) - 1 \<le> v \<and> v < - 1 \<longrightarrow>
            neighbors g v = Inr (row_cols (adjacency_matrix g) (nat (int (num_vertices g) + 1 + v))))"
proof -
  let ?A = "adjacency_matrix g" and ?n = "num_vertices g"
  from assms have wf: "csr_wf ?A" and sh: "shape ?A = ?n"
    and a: "ai g = indptr ?A" "aj g = indices ?A" by (simp_all add: graph_inv_def)
  have len: "length (ai g) = Suc ?n" using wf sh a by (simp add: csr_wf_def)
  have c1: "neighbors g v = Inr (row_cols ?A (nat v))" if "0 \<le> v" "v < int ?n"
  proof -
    have "nat (v + 1) = Suc (nat v)" using that by simp
    then show ?thesis using that len neighbors_row[OF assms, of "nat v"]
      by (simp add: neighbors_def np_getitem_def np_index_def)
  qed
  have c2: "neighbors g v = Inl IndexError" if "int ?n \<le> v \<or> v < - int ?n - 1"
    using that len by (auto simp add: neighbors_def np_getitem_def np_index_def)
  have c3: "neighbors g (- 1) = Inr []"
    using len wf a by (simp add: neighbors_def np_getitem_def np_index_def np_slice_def csr_wf_def)
  have c4: "neighbors g v = Inr (row_cols ?A (nat (int ?n + 1 + v)))"
    if "- int ?n - 1 \<le> v" "v < - 1"
  proof -
    have "nat (int ?n + 1 + (v + 1)) = Suc (nat (int ?n + 1 + v))" using that by simp
    moreover have "nat (int ?n + 1 + v) < ?n" using that by simp
    ultimately show ?thesis using that len neighbors_row[OF assms, of "nat (int ?n + 1 + v)"]
      by (simp add: neighbors_def np_getitem_def np_index_def add.commute add.left_commute)
  qed
  show ?thesis using c1 c2 c3 c4 by blast
qed

text \<open>
  The amended C6 on the path graph, one vertex for each of its four cases.
\<close>

theorem neighbors_spec_witness:
  "graph_inv path_graph
   \<and> neighbors path_graph 1 = Inr [0, 2] \<and> neighbors path_graph 4 = Inl IndexError
   \<and> neighbors path_graph (- 6) = Inl IndexError \<and> neighbors path_graph (- 1) = Inr []
   \<and> neighbors path_graph (- 5) = Inr [1]"
proof -
  show ?thesis
    using neighbors_spec[OF graph_inv_path_graph, of 1] neighbors_spec[OF graph_inv_path_graph, of 4]
      neighbors_spec[OF graph_inv_path_graph, of "- 6"] neighbors_spec[OF graph_inv_path_graph, of "- 1"]
      neighbors_spec[OF graph_inv_path_graph, of "- 5"] graph_inv_path_graph
    by (simp add: d_path_graph row_cols_path)
qed

section \<open>Local extrema\<close>

lemma scan_row_result:
  assumes "\<forall>k\<in>set nzis. k < length aj' \<and> aj' ! k < length vals"
  shows "scan_row aj' vals factor strict i vali nzis =
           Inr (\<forall>k\<in>set nzis. aj' ! k \<noteq> i \<longrightarrow>
                  (if strict then vali < factor * vals ! (aj' ! k)
                   else vali \<le> factor * vals ! (aj' ! k)))"
  using assms by (induction nzis) (auto simp: Let_def)

lemma extrema_loop_result:
  assumes inv: "graph_inv g" and len: "length vals = num_vertices g"
    and rng: "\<forall>i\<in>set is. i < num_vertices g"
  shows "extrema_loop g vals (if reverse then - 1 else 1) strict is acc =
           Inr (acc @ filter (qualifies g vals strict reverse) is)"
  using rng
proof (induction "is" arbitrary: acc)
  case Nil
  then show ?case by simp
next
  case (Cons i rest)
  let ?A = "adjacency_matrix g"
  from inv have wf: "csr_wf ?A" and sh: "shape ?A = num_vertices g"
    and a: "ai g = indptr ?A" "aj g = indices ?A" by (simp_all add: graph_inv_def)
  have i: "i < num_vertices g" using Cons.prems by simp
  have lai: "length (ai g) = Suc (num_vertices g)" using wf sh a by (simp add: csr_wf_def)
  have bnd: "\<forall>k\<in>set (row_range (ai g) i). k < length (aj g) \<and> aj g ! k < length vals"
    using row_range_bounds[OF wf] i sh a len by simp
  have sr: "scan_row (aj g) vals (if reverse then - 1 else 1) strict i
              ((if reverse then - 1 else 1) * vals ! i) (row_range (ai g) i)
            = Inr (qualifies g vals strict reverse i)"
    unfolding scan_row_result[OF bnd]
    by (simp add: qualifies_def row_cols_def a Let_def)
  show ?case using Cons i len lai by (simp add: sr del: scan_row.simps)
qed

text \<open>
  Claim C7. For a graph satisfying the construction invariant and a value array of length
  \<open>n\<close>, \<open>local_extrema\<close> returns exactly the vertices that qualify (with the factor \<open>-1\<close>
  if \<open>reverse\<close>, else \<open>1\<close>; self-loops skipped; \<open>\<le>\<close> or \<open><\<close> by \<open>strict\<close>), in ascending
  order without repetition, together with their values in the same positions; a vertex
  with an empty row always qualifies.
\<close>

theorem local_extrema_spec:
  assumes "graph_inv g" and "length vals = num_vertices g"
  shows "local_extrema g vals strict reverse =
           Inr (filter (qualifies g vals strict reverse) [0..<num_vertices g],
                map (\<lambda>i. vals ! i) (filter (qualifies g vals strict reverse) [0..<num_vertices g]))
       \<and> sorted (filter (qualifies g vals strict reverse) [0..<num_vertices g])
       \<and> distinct (filter (qualifies g vals strict reverse) [0..<num_vertices g])
       \<and> (\<forall>i<num_vertices g. row_cols (adjacency_matrix g) i = [] \<longrightarrow>
             i \<in> set (filter (qualifies g vals strict reverse) [0..<num_vertices g]))"
proof -
  have sh: "shape (adjacency_matrix g) = num_vertices g" using assms(1) by (simp add: graph_inv_def)
  have "extrema_loop g vals (if reverse then - 1 else 1) strict [0..<num_vertices g] [] =
          Inr (filter (qualifies g vals strict reverse) [0..<num_vertices g])"
    using extrema_loop_result[OF assms, of "[0..<num_vertices g]" reverse strict "[]"] by simp
  then have "local_extrema g vals strict reverse =
           Inr (filter (qualifies g vals strict reverse) [0..<num_vertices g],
                map (\<lambda>i. vals ! i) (filter (qualifies g vals strict reverse) [0..<num_vertices g]))"
    by (simp add: local_extrema_def sh Let_def)
  moreover have "sorted (filter (qualifies g vals strict reverse) [0..<num_vertices g])"
    by (simp add: sorted_wrt_filter)
  moreover have "\<forall>i<num_vertices g. row_cols (adjacency_matrix g) i = [] \<longrightarrow>
             i \<in> set (filter (qualifies g vals strict reverse) [0..<num_vertices g])"
    by (simp add: qualifies_def)
  ultimately show ?thesis by simp
qed

text \<open>
  C7 on the path graph with the values \<open>[3, 1, 2, 0]\<close>: the minima, and the strict maxima.
\<close>

theorem local_extrema_spec_witness:
  "graph_inv path_graph \<and> length [3, 1, 2, 0 :: real] = num_vertices path_graph
   \<and> local_extrema path_graph [3, 1, 2, 0] False False = Inr ([1, 3], [1, 0])
   \<and> local_extrema path_graph [3, 1, 2, 0] True True = Inr ([0, 2], [3, 2])"
proof -
  have l: "length [3, 1, 2, 0 :: real] = num_vertices path_graph" by (simp add: d_path_graph)
  have q: "filter (qualifies path_graph [3, 1, 2, 0] False False) [0..<4] = [1, 3]"
    "filter (qualifies path_graph [3, 1, 2, 0] True True) [0..<4] = [0, 2]"
    by (simp_all add: qualifies_def d_path_graph row_cols_path upt_rec eval_nat_numeral)
  show ?thesis
    using local_extrema_spec[OF graph_inv_path_graph l, of False False]
      local_extrema_spec[OF graph_inv_path_graph l, of True True] graph_inv_path_graph
    by (simp add: d_path_graph q)
qed

section \<open>Construction yields a symmetric matrix\<close>

lemma symmetrize_and_finish_result:
  "symmetrize_and_finish self n A =
     Inr (complete_graph n (list_ex (\<lambda>x. x \<noteq> 1) (data A))
            (if is_symmetric A then A else symmetrized A))"
  by (simp add: symmetrize_and_finish_def Let_def symmetrized_is_symmetric)

lemma adjacency_complete_graph [simp]:
  "adjacency_matrix (complete_graph n w A) = A" "num_vertices (complete_graph n w A) = n"
  by (simp_all add: complete_graph_def compute_statistics_def Let_def)

lemma csr_matrix_coo_Inr:
  assumes "csr_matrix_coo w row col n = Inr A"
  shows "A = csr_build (nat n) (\<lambda>i j. (int i, int j) \<in> set (zip row col)) (directed_weight row col w)"
  using assms by (simp add: csr_matrix_coo_def split: if_splits)

lemma entries_canonical:
  assumes "A = csr_build n st val"
  shows "((u, v), w) \<in> set (entries A) \<longleftrightarrow> u < n \<and> v < n \<and> csr_stored A u v \<and> w = csr_get A u v"
  unfolding assms by (auto simp add: entries_csr_build csr_stored_csr_build csr_get_csr_build)

lemma symmetric_canonical_mirrored:
  assumes "A = csr_build n st val" "is_symmetric A"
  shows "nonzero_mirrored A"
  unfolding nonzero_mirrored_def
proof (intro ballI impI)
  fix e assume e: "e \<in> set (entries A)" "snd e \<noteq> 0"
  obtain u v w where uvw: "e = ((u, v), w)" by (metis prod.collapse)
  have sh: "shape A = n" by (simp add: assms(1))
  from e uvw have 1: "u < n" "v < n" "w = csr_get A u v" "w \<noteq> 0"
    using entries_canonical[OF assms(1)] by auto
  have "csr_get A v u = w" using assms(2) 1 by (simp add: is_symmetric_iff sh)
  then have "((v, u), w) \<in> set (entries A)"
    using 1 entries_canonical[OF assms(1), of v u w] csr_get_nonzero_stored[of A v u] by simp
  then show "((snd (fst e), fst (fst e)), snd e) \<in> set (entries A)" by (simp add: uvw)
qed

lemma built_matrix_props:
  assumes "csr_matrix_coo w row col n = Inr A0"
  defines "F \<equiv> (if is_symmetric A0 then A0 else symmetrized A0)"
  shows "value_symmetric F" "nonzero_mirrored F" "shape F = nat n"
    "\<forall>u<nat n. \<forall>v<nat n. csr_get F u v = max (directed_weight row col w u v) (directed_weight row col w v u)"
proof -
  note A0 = csr_matrix_coo_Inr[OF assms(1)]
  have sh0: "shape A0 = nat n" by (simp add: A0)
  show sh: "shape F = nat n" by (simp add: F_def sh0)
  have sym: "is_symmetric F" by (simp add: F_def symmetrized_is_symmetric)
  then show "value_symmetric F" by (simp add: value_symmetric_def is_symmetric_iff)
  show "nonzero_mirrored F"
  proof (cases "is_symmetric A0")
    case True
    then show ?thesis using symmetric_canonical_mirrored[OF A0] by (simp add: F_def)
  next
    case False
    then show ?thesis
      using symmetric_canonical_mirrored[OF symmetrized_canonical symmetrized_is_symmetric, of A0]
      by (simp add: F_def)
  qed
  have g0: "csr_get A0 u v = directed_weight row col w u v" if "u < nat n" "v < nat n" for u v
  proof -
    have "directed_weight row col w u v = 0" if "(int u, int v) \<notin> set (zip row col)"
    proof -
      have "filter (\<lambda>e. fst e = (int u, int v)) (zip (zip row col) w) = []"
        using that by (auto simp: filter_empty_conv dest: set_zip_leftD)
      then show ?thesis by (simp add: directed_weight_def)
    qed
    then show ?thesis using that by (auto simp add: A0 csr_get_csr_build)
  qed
  show "\<forall>u<nat n. \<forall>v<nat n. csr_get F u v = max (directed_weight row col w u v) (directed_weight row col w v u)"
  proof (intro allI impI)
    fix u v assume uv: "u < nat n" "v < nat n"
    show "csr_get F u v = max (directed_weight row col w u v) (directed_weight row col w v u)"
    proof (cases "is_symmetric A0")
      case True
      then have "csr_get A0 u v = csr_get A0 v u" using uv by (simp add: is_symmetric_iff sh0)
      then show ?thesis using True uv g0 by (simp add: F_def)
    next
      case False
      then show ?thesis using uv g0 by (simp add: F_def symmetrized_get sh0)
    qed
  qed
qed

lemma list_to_gl_Inr:
  assumes "list_to_gl self source target weights = Inr g"
  shows "\<exists>A0. csr_matrix_coo weights (map int source) (map int target) (int (num_vertices g)) = Inr A0
           \<and> g = complete_graph (num_vertices g) (list_ex (\<lambda>x. x \<noteq> 1) (data A0))
                   (if is_symmetric A0 then A0 else symmetrized A0)"
  using assms
  by (auto simp add: list_to_gl_def Let_def symmetrize_and_finish_result split: sum.splits)

lemma read_graph_Inr:
  assumes "read_graph self df = Inr g"
  shows "\<exists>A0 n. csr_matrix_coo (if df_shape1 df = 2 then replicate (length (df_col0 df)) 1 else df_col2 df)
                   (df_col0 df) (df_col1 df) n = Inr A0 \<and> nat n = num_vertices g
           \<and> g = complete_graph (num_vertices g) (list_ex (\<lambda>x. x \<noteq> 1) (data A0))
                   (if is_symmetric A0 then A0 else symmetrized A0)"
proof -
  let ?w = "if df_shape1 df = 2 then replicate (length (df_col0 df)) 1 else df_col2 df"
  from assms obtain ms mt A0 where
    c: "csr_matrix_coo ?w (df_col0 df) (df_col1 df) (max (ms + 1) (mt + 1)) = Inr A0"
    and g: "g = complete_graph (nat (max (ms + 1) (mt + 1))) (list_ex (\<lambda>x. x \<noteq> 1) (data A0))
                   (if is_symmetric A0 then A0 else symmetrized A0)"
    by (auto simp add: read_graph_def Let_def symmetrize_and_finish_result split: sum.splits if_splits)
  have "nat (max (ms + 1) (mt + 1)) = num_vertices g" by (simp add: g)
  then show ?thesis using c g by metis
qed

lemma np_max_error: "np_max xs = Inl e \<Longrightarrow> e = ValueError"
  by (simp add: np_max_def split: list.splits)

lemma csr_matrix_coo_error: "csr_matrix_coo w row col n = Inl e \<Longrightarrow> e = ValueError"
  by (simp add: csr_matrix_coo_def split: if_splits)

lemma no_assertion_error:
  "list_to_gl self source target weights \<noteq> Inl (AssertionError, s)"
  "read_graph self df \<noteq> Inl (AssertionError, s)"
proof -
  show "list_to_gl self source target weights \<noteq> Inl (AssertionError, s)"
    unfolding list_to_gl_def Let_def symmetrize_and_finish_result
    by (auto split: sum.splits dest: np_max_error csr_matrix_coo_error)
  show "read_graph self df \<noteq> Inl (AssertionError, s)"
    unfolding read_graph_def Let_def symmetrize_and_finish_result
    by (auto split: sum.splits dest: np_max_error csr_matrix_coo_error)
qed

lemma coo_zero_edge: "csr_matrix_coo [0] [0] [1] 2 = Inr zero_edge_csr"
  by code_simp

lemma sym_zero_edge: "is_symmetric zero_edge_csr" "list_ex (\<lambda>x. x \<noteq> 1) (data zero_edge_csr)"
  by code_simp+

lemma list_to_gl_zero_edge: "list_to_gl no_attrs [0] [1] [0] = Inr zero_edge_graph"
  using sym_zero_edge
  by (simp add: list_to_gl_def np_max_def coo_zero_edge symmetrize_and_finish_result Let_def zero_edge_graph_def)
     (simp add: eval_nat_numeral)

lemma entries_zero_edge: "entries zero_edge_csr = [((0, 1), 0)]"
  by code_simp

text \<open>
  Claim C3, as stated, fails: the stored adjacency of a built graph need not contain the
  mirror of every stored entry. The edge list with the single edge \<open>(0, 1)\<close> of weight \<open>0\<close>
  passes the symmetry test by value, so nothing is reconciled: the entry \<open>(0, 1, 0)\<close> is
  stored and \<open>(1, 0, 0)\<close> is not.
\<close>

theorem stored_symmetry_counterexample:
  "list_to_gl no_attrs [0] [1] [0] = Inr zero_edge_graph
   \<and> entries (adjacency_matrix zero_edge_graph) = [((0, 1), 0)]
   \<and> ((1, 0), 0) \<notin> set (entries (adjacency_matrix zero_edge_graph))"
  using list_to_gl_zero_edge by (simp add: zero_edge_graph_def entries_zero_edge)

lemma list_to_gl_symmetric:
  assumes a: "list_to_gl self source target weights = Inr g"
  shows "value_symmetric (adjacency_matrix g)" "nonzero_mirrored (adjacency_matrix g)"
    "\<forall>u<num_vertices g. \<forall>v<num_vertices g.
            csr_get (adjacency_matrix g) u v =
              max (directed_weight (map int source) (map int target) weights u v)
                  (directed_weight (map int source) (map int target) weights v u)"
proof -
  from list_to_gl_Inr[OF a] obtain A0 where
    c: "csr_matrix_coo weights (map int source) (map int target) (int (num_vertices g)) = Inr A0"
    and gg: "g = complete_graph (num_vertices g) (list_ex (\<lambda>x. x \<noteq> 1) (data A0))
                   (if is_symmetric A0 then A0 else symmetrized A0)"
    by blast
  have g: "adjacency_matrix g = (if is_symmetric A0 then A0 else symmetrized A0)"
    by (subst gg) (simp only: adjacency_complete_graph)
  show "value_symmetric (adjacency_matrix g)" "nonzero_mirrored (adjacency_matrix g)"
    using built_matrix_props(1,2)[OF c] g by simp_all
  show "\<forall>u<num_vertices g. \<forall>v<num_vertices g.
            csr_get (adjacency_matrix g) u v =
              max (directed_weight (map int source) (map int target) weights u v)
                  (directed_weight (map int source) (map int target) weights v u)"
    using built_matrix_props(4)[OF c] g by simp
qed

lemma read_graph_symmetric:
  assumes a: "read_graph self df = Inr g"
  shows "value_symmetric (adjacency_matrix g)" "nonzero_mirrored (adjacency_matrix g)"
    "\<forall>u<num_vertices g. \<forall>v<num_vertices g.
            csr_get (adjacency_matrix g) u v =
              max (directed_weight (df_col0 df) (df_col1 df)
                     (if df_shape1 df = 2 then replicate (length (df_col0 df)) 1 else df_col2 df) u v)
                  (directed_weight (df_col0 df) (df_col1 df)
                     (if df_shape1 df = 2 then replicate (length (df_col0 df)) 1 else df_col2 df) v u)"
proof -
  let ?w = "if df_shape1 df = 2 then replicate (length (df_col0 df)) 1 else df_col2 df"
  from read_graph_Inr[OF a] obtain A0 n where
    c: "csr_matrix_coo ?w (df_col0 df) (df_col1 df) n = Inr A0" and n: "nat n = num_vertices g"
    and gg: "g = complete_graph (num_vertices g) (list_ex (\<lambda>x. x \<noteq> 1) (data A0))
                   (if is_symmetric A0 then A0 else symmetrized A0)"
    by blast
  have g: "adjacency_matrix g = (if is_symmetric A0 then A0 else symmetrized A0)"
    by (subst gg) (simp only: adjacency_complete_graph)
  show "value_symmetric (adjacency_matrix g)" "nonzero_mirrored (adjacency_matrix g)"
    using built_matrix_props(1,2)[OF c] g by simp_all
  show "\<forall>u<num_vertices g. \<forall>v<num_vertices g.
            csr_get (adjacency_matrix g) u v =
              max (directed_weight (df_col0 df) (df_col1 df) ?w u v)
                  (directed_weight (df_col0 df) (df_col1 df) ?w v u)"
    using built_matrix_props(4)[OF c] g n by simp
qed

text \<open>
  Claim C3, amended. For every graph \<^verbatim>\<open>list_to_gl\<close> or \<^verbatim>\<open>read_graph\<close> returns, the adjacency is
  symmetric by value (\<open>A[u,v] = A[v,u]\<close>), every stored entry \<open>(u, v, w)\<close> with \<open>w \<noteq> 0\<close> has its
  mirror \<open>(v, u, w)\<close> stored, each value is the larger of the two directed input weights
  (repeated coordinates summed), and neither constructor ever raises the assertion error of
  the symmetry check.
\<close>

theorem construction_symmetric:
  "(list_to_gl self source target weights = Inr g \<longrightarrow>
      value_symmetric (adjacency_matrix g) \<and> nonzero_mirrored (adjacency_matrix g)
      \<and> (\<forall>u<num_vertices g. \<forall>v<num_vertices g.
            csr_get (adjacency_matrix g) u v =
              max (directed_weight (map int source) (map int target) weights u v)
                  (directed_weight (map int source) (map int target) weights v u)))
   \<and> (read_graph self df = Inr g' \<longrightarrow>
      value_symmetric (adjacency_matrix g') \<and> nonzero_mirrored (adjacency_matrix g')
      \<and> (\<forall>u<num_vertices g'. \<forall>v<num_vertices g'.
            csr_get (adjacency_matrix g') u v =
              max (directed_weight (df_col0 df) (df_col1 df)
                     (if df_shape1 df = 2 then replicate (length (df_col0 df)) 1 else df_col2 df) u v)
                  (directed_weight (df_col0 df) (df_col1 df)
                     (if df_shape1 df = 2 then replicate (length (df_col0 df)) 1 else df_col2 df) v u)))
   \<and> (\<forall>s. list_to_gl self source target weights \<noteq> Inl (AssertionError, s))
   \<and> (\<forall>s. read_graph self df \<noteq> Inl (AssertionError, s))"
  using list_to_gl_symmetric[of self source target weights g] read_graph_symmetric[of self df g']
    no_assertion_error(1)[of self source target weights] no_assertion_error(2)[of self df]
  by blast

lemma coo_asym: "csr_matrix_coo [2, 3] [0, 1] [1, 0] 2 = Inr asym_csr0"
  by code_simp

lemma asym_not_symmetric: "\<not> is_symmetric asym_csr0" "list_ex (\<lambda>x. x \<noteq> 1) (data asym_csr0)"
  by code_simp+

lemma asym_symmetrized: "symmetrized asym_csr0 = asym_csr"
  by code_simp

lemma list_to_gl_asym: "list_to_gl no_attrs [0, 1] [1, 0] [2, 3] = Inr asym_graph"
  using asym_not_symmetric
  by (simp add: list_to_gl_def np_max_def coo_asym symmetrize_and_finish_result Let_def asym_graph_def asym_symmetrized)
     (simp add: eval_nat_numeral)

lemma asym_values: "directed_weight [0, 1] [1, 0] [2, 3] 0 (Suc 0) = 2" "directed_weight [0, 1] [1, 0] [2, 3] (Suc 0) 0 = 3"
  by code_simp+

text \<open>
  The amended C3 on the edge list \<open>(0, 1, 2), (1, 0, 3)\<close>: both directions end at \<open>3\<close>.
\<close>

theorem construction_symmetric_witness:
  "list_to_gl no_attrs [0, 1] [1, 0] [2, 3] = Inr asym_graph
   \<and> value_symmetric (adjacency_matrix asym_graph) \<and> nonzero_mirrored (adjacency_matrix asym_graph)
   \<and> csr_get (adjacency_matrix asym_graph) 0 1 = 3 \<and> csr_get (adjacency_matrix asym_graph) 1 0 = 3"
proof -
  have n: "num_vertices asym_graph = 2" by (simp add: asym_graph_def)
  from construction_symmetric[of no_attrs "[0, 1]" "[1, 0]" "[2, 3]" asym_graph] list_to_gl_asym
  have 1: "value_symmetric (adjacency_matrix asym_graph)" "nonzero_mirrored (adjacency_matrix asym_graph)"
    and 2: "\<forall>u<num_vertices asym_graph. \<forall>v<num_vertices asym_graph.
            csr_get (adjacency_matrix asym_graph) u v =
              max (directed_weight (map int [0, 1]) (map int [1, 0]) [2, 3] u v)
                  (directed_weight (map int [0, 1]) (map int [1, 0]) [2, 3] v u)"
    by blast+
  from 2[rule_format, of 0 1] 2[rule_format, of 1 0] n
  have "csr_get (adjacency_matrix asym_graph) 0 1 = 3" "csr_get (adjacency_matrix asym_graph) 1 0 = 3"
    by (simp_all add: asym_values)
  then show ?thesis using 1 list_to_gl_asym by simp
qed

section \<open>Construction and malformed input\<close>

lemma np_max_nonempty: "xs \<noteq> [] \<Longrightarrow> \<exists>m. np_max xs = Inr m \<and> m \<in> set xs"
proof (cases xs)
  case Nil
  then show "xs \<noteq> [] \<Longrightarrow> ?thesis" by simp
next
  case (Cons x rest)
  have "fold max rest x = Max (set (x # rest))" by (rule Max.set_eq_fold[symmetric])
  moreover have "Max (set (x # rest)) \<in> set (x # rest)" by (rule Max_in) simp_all
  ultimately show ?thesis using Cons by (simp add: np_max_def)
qed

lemma csr_matrix_coo_negative:
  "(\<exists>i\<in>set row \<union> set col. i < 0) \<Longrightarrow> csr_matrix_coo w row col n = Inl ValueError"
  by (auto simp add: csr_matrix_coo_def)


lemma read_graph_negative:
  assumes "df_shape1 df = 2 \<or> df_shape1 df = 3" "length (df_col0 df) = length (df_col1 df)"
    and "\<exists>i\<in>set (df_col0 df) \<union> set (df_col1 df). i < 0"
  shows "\<exists>n. read_graph self df = Inl (ValueError, self\<lparr>at_num_vertices := Some n\<rparr>)"
proof -
  from assms(2,3) have ne: "df_col0 df \<noteq> []" "df_col1 df \<noteq> []" by auto
  from np_max_nonempty[OF ne(1)] obtain ms where ms: "np_max (df_col0 df) = Inr ms" by blast
  from np_max_nonempty[OF ne(2)] obtain mt where mt: "np_max (df_col1 df) = Inr mt" by blast
  show ?thesis
    using assms(1) ms mt csr_matrix_coo_negative[OF assms(3)]
    by (auto simp add: read_graph_def Let_def)
qed



section \<open>Discarding weights and the pattern of a positive edge list\<close>

lemma discard_complete_graph:
  "discard_weights (complete_graph n w A) =
     complete_graph n False (A\<lparr>data := replicate (length (data A)) 1\<rparr>)"
  by (simp add: discard_weights_def complete_graph_def compute_statistics_def Let_def)

lemma length_concat_take_map:
  "length (concat (take i (map f xs))) = sum_list (map (\<lambda>x. length (f x)) (take i xs))"
  by (simp add: take_map length_concat o_def)

lemma csr_build_fill:
  "(csr_build n st val)\<lparr>data := replicate (length (data (csr_build n st val))) c\<rparr>
     = csr_build n st (\<lambda>i j. c)"
proof -
  have ip: "length (concat (take i (build_rows n st val))) = length (concat (take i (build_rows n st (\<lambda>i j. c))))" for i
    by (simp add: build_rows_def length_concat_take_map)
  have ix: "map fst (concat (build_rows n st val)) = map fst (concat (build_rows n st (\<lambda>i j. c)))"
    by (simp add: build_rows_def map_concat o_def)
  have "set (map snd (concat (build_rows n st (\<lambda>i j. c)))) \<subseteq> {c}"
    by (auto simp add: build_rows_def)
  then have dt: "map snd (concat (build_rows n st (\<lambda>i j. c)))
          = replicate (length (concat (build_rows n st (\<lambda>i j. c)))) c"
    by (metis length_map replicate_length_same singletonD subsetD)
  have ln: "length (concat (build_rows n st val)) = length (concat (build_rows n st (\<lambda>i j. c)))"
    using ix by (metis length_map)
  show ?thesis
    unfolding csr_build_alt by (simp add: ip ix dt ln del: upt_Suc)
qed

lemma filter_fst_distinct:
  assumes "distinct (map fst es)" "(k, x) \<in> set es"
  shows "filter (\<lambda>e. fst e = k) es = [(k, x)]"
  using assms
proof (induction es)
  case Nil
  then show ?case by simp
next
  case (Cons e es)
  show ?case
  proof (cases "fst e = k")
    case True
    then have nk: "k \<notin> fst ` set es" using Cons.prems(1) by simp
    then have f: "filter (\<lambda>e. fst e = k) es = []"
      by (auto simp add: filter_empty_conv image_iff)
    have "(k, x) \<notin> set es" using nk by (simp add: image_iff) (metis fst_conv)
    then have "e = (k, x)" using Cons.prems(2) by simp
    then show ?thesis using f by simp
  next
    case False
    then have "(k, x) \<in> set es" using Cons.prems(2) by (cases e) auto
    moreover have "distinct (map fst es)" using Cons.prems(1) by simp
    ultimately have "filter (\<lambda>e. fst e = k) es = [(k, x)]" by (rule Cons.IH[rotated])
    then show ?thesis using False by simp
  qed
qed

lemma directed_weight_distinct:
  assumes "distinct (zip row col)" "length row = length w" "length col = length w"
    and "(int i, int j) \<in> set (zip row col)"
  shows "directed_weight row col w i j \<in> set w"
proof -
  have m: "map fst (zip (zip row col) w) = zip row col" using assms(2,3) by simp
  have "(int i, int j) \<in> fst ` set (zip (zip row col) w)"
    using assms(4) m by (metis list.set_map)
  then obtain e where e: "e \<in> set (zip (zip row col) w)" "fst e = (int i, int j)" by (auto simp: image_iff)
  then have x: "((int i, int j), snd e) \<in> set (zip (zip row col) w)" by (metis prod.collapse)
  have "filter (\<lambda>e. fst e = (int i, int j)) (zip (zip row col) w) = [((int i, int j), snd e)]"
    using assms(1) x by (intro filter_fst_distinct) (simp_all only: m)
  then have "directed_weight row col w i j = snd e" by (simp add: directed_weight_def)
  moreover have "snd e \<in> set w" using x by (rule set_zip_rightD)
  ultimately show ?thesis by simp
qed

lemma distinct_zip_int:
  assumes "distinct (zip (xs :: nat list) ys)"
  shows "distinct (zip (map int xs) (map int ys))"
proof -
  have "zip (map int xs) (map int ys) = map (\<lambda>p. (int (fst p), int (snd p))) (zip xs ys)"
    by (simp add: zip_map_map split_def)
  moreover have "inj_on (\<lambda>p :: nat \<times> nat. (int (fst p), int (snd p))) (set (zip xs ys))"
    by (auto simp: inj_on_def prod_eq_iff)
  ultimately show ?thesis using assms by (simp add: distinct_map)
qed

lemma positive_pattern:
  assumes pos: "\<And>i j. i < n \<Longrightarrow> j < n \<Longrightarrow> st i j \<Longrightarrow> 0 < val i j"
  defines "A0 \<equiv> csr_build n st val"
  shows "(if is_symmetric A0 then A0 else symmetrized A0)
           = csr_build n (\<lambda>i j. st i j \<or> st j i)
               (\<lambda>i j. max (if st i j then val i j else 0) (if st j i then val j i else 0))"
proof -
  have g: "csr_get A0 i j = (if st i j then val i j else 0)" if "i < n" "j < n" for i j
    using that by (simp add: A0_def csr_get_csr_build)
  have sh: "shape A0 = n" by (simp add: A0_def)
  show ?thesis
  proof (cases "is_symmetric A0")
    case True
    then have sym: "(if st i j then val i j else 0) = (if st j i then val j i else 0)"
      if "i < n" "j < n" for i j
      using that g by (simp add: is_symmetric_iff sh)
    have st_sym: "st i j \<longleftrightarrow> st j i" if "i < n" "j < n" for i j
      using sym[OF that] pos[OF that] pos[OF that(2,1)] by (auto split: if_splits)
    have "A0 = csr_build n (\<lambda>i j. st i j \<or> st j i)
               (\<lambda>i j. max (if st i j then val i j else 0) (if st j i then val j i else 0))"
      unfolding A0_def
    proof (rule csr_build_cong)
      fix i j assume ij: "i < n" "j < n"
      show "st i j = (st i j \<or> st j i)" using st_sym[OF ij] by auto
      assume "st i j"
      then show "val i j = max (if st i j then val i j else 0) (if st j i then val j i else 0)"
        using sym[OF ij] by simp
    qed
    then show ?thesis using True by simp
  next
    case False
    have "symmetrized A0 = csr_build n (\<lambda>i j. st i j \<or> st j i)
               (\<lambda>i j. max (if st i j then val i j else 0) (if st j i then val j i else 0))"
      unfolding symmetrized_canonical sh
    proof (rule csr_build_cong)
      fix i j assume ij: "i < n" "j < n"
      show "(max (csr_get A0 i j) (csr_get A0 j i) \<noteq> 0) = (st i j \<or> st j i)"
        using pos[OF ij] pos[OF ij(2,1)] by (auto simp add: g ij max_def)
      show "max (csr_get A0 i j) (csr_get A0 j i)
          = max (if st i j then val i j else 0) (if st j i then val j i else 0)"
        by (simp add: g ij)
    qed
    then show ?thesis using False by simp
  qed
qed

lemma unit_pattern:
  assumes pos: "\<And>i j. i < n \<Longrightarrow> j < n \<Longrightarrow> st i j \<Longrightarrow> 0 < val i j"
    and one: "\<And>i j. i < n \<Longrightarrow> j < n \<Longrightarrow> st i j \<Longrightarrow> val1 i j = 1"
  defines "A0 \<equiv> csr_build n st val" and "A1 \<equiv> csr_build n st val1"
  defines "F \<equiv> (if is_symmetric A0 then A0 else symmetrized A0)"
  shows "(if is_symmetric A1 then A1 else symmetrized A1) = F\<lparr>data := replicate (length (data F)) 1\<rparr>"
    and "\<not> list_ex (\<lambda>x. x \<noteq> 1) (data A1)"
proof -
  have F: "F = csr_build n (\<lambda>i j. st i j \<or> st j i)
               (\<lambda>i j. max (if st i j then val i j else 0) (if st j i then val j i else 0))"
    unfolding F_def A0_def by (rule positive_pattern) (rule pos)
  have pos1: "0 < val1 i j" if "i < n" "j < n" "st i j" for i j using one[OF that] by simp
  have "(if is_symmetric A1 then A1 else symmetrized A1)
      = csr_build n (\<lambda>i j. st i j \<or> st j i)
               (\<lambda>i j. max (if st i j then val1 i j else 0) (if st j i then val1 j i else 0))"
    unfolding A1_def by (rule positive_pattern) (rule pos1)
  also have "\<dots> = csr_build n (\<lambda>i j. st i j \<or> st j i) (\<lambda>i j. 1)"
    by (rule csr_build_cong) (auto simp add: one max_def)
  also have "\<dots> = F\<lparr>data := replicate (length (data F)) 1\<rparr>"
    unfolding F by (rule csr_build_fill[symmetric])
  finally show "(if is_symmetric A1 then A1 else symmetrized A1) = F\<lparr>data := replicate (length (data F)) 1\<rparr>" .
  have "set (data A1) \<subseteq> {1}"
    unfolding A1_def data_csr_build_set using one by auto
  then show "\<not> list_ex (\<lambda>x. x \<noteq> 1) (data A1)" by (auto simp add: list_ex_iff)
qed

section \<open>Discarding weights against rebuilding with unit weights\<close>

lemma csr_wf_fill: "csr_wf A \<Longrightarrow> csr_wf (A\<lparr>data := replicate (length (data A)) c\<rparr>)"
  by (simp add: csr_wf_def)

lemma csr_wf_symmetrized: "csr_wf (symmetrized A)"
  by (subst symmetrized_canonical) (rule csr_wf_csr_build)

lemma csr_wf_built:
  assumes "csr_matrix_coo w row col n = Inr A0"
  shows "csr_wf (if is_symmetric A0 then A0 else symmetrized A0)"
    "shape (if is_symmetric A0 then A0 else symmetrized A0) = nat n"
  using csr_matrix_coo_Inr[OF assms] csr_wf_csr_build csr_wf_symmetrized by auto

lemma list_to_gl_inv: "list_to_gl self source target weights = Inr g \<Longrightarrow> graph_inv g"
proof -
  assume a: "list_to_gl self source target weights = Inr g"
  from list_to_gl_Inr[OF a] obtain A0 where
    c: "csr_matrix_coo weights (map int source) (map int target) (int (num_vertices g)) = Inr A0"
    and gg: "g = complete_graph (num_vertices g) (list_ex (\<lambda>x. x \<noteq> 1) (data A0))
                   (if is_symmetric A0 then A0 else symmetrized A0)"
    by blast
  show ?thesis
    by (subst gg) (rule graph_inv_complete_graph, use csr_wf_built[OF c] in simp_all)
qed

lemma read_graph_inv: "read_graph self df = Inr g \<Longrightarrow> graph_inv g"
proof -
  assume a: "read_graph self df = Inr g"
  from read_graph_Inr[OF a] obtain A0 n where
    c: "csr_matrix_coo (if df_shape1 df = 2 then replicate (length (df_col0 df)) 1 else df_col2 df)
          (df_col0 df) (df_col1 df) n = Inr A0" and n: "nat n = num_vertices g"
    and gg: "g = complete_graph (num_vertices g) (list_ex (\<lambda>x. x \<noteq> 1) (data A0))
                   (if is_symmetric A0 then A0 else symmetrized A0)"
    by blast
  show ?thesis
    by (subst gg) (rule graph_inv_complete_graph, use csr_wf_built[OF c] n in simp_all)
qed

lemma discard_weights_effect:
  assumes "graph_inv g"
  shows "data (adjacency_matrix (discard_weights g)) = replicate (num_edges g) 1"
    "\<not> weighted (discard_weights g)" "graph_inv (discard_weights g)"
proof -
  show "data (adjacency_matrix (discard_weights g)) = replicate (num_edges g) 1"
    "\<not> weighted (discard_weights g)"
    using assms by (simp_all add: discard_weights_def compute_statistics_def Let_def graph_inv_def)
  have "csr_wf ((adjacency_matrix g)\<lparr>data := replicate (length (data (adjacency_matrix g))) 1\<rparr>)"
    using assms by (intro csr_wf_fill) (simp add: graph_inv_def)
  then show "graph_inv (discard_weights g)"
    using assms by (simp add: discard_weights_def compute_statistics_def Let_def graph_inv_def)
qed

lemma list_to_gl_unit_weights:
  assumes a: "list_to_gl self source target weights = Inr g"
    and dist: "distinct (zip source target)" and pos: "\<forall>x\<in>set weights. 0 < x"
  shows "list_to_gl self' source target (replicate (length weights) 1) = Inr (discard_weights g)"
proof -
  let ?row = "map int source" and ?col = "map int target"
  let ?u = "replicate (length weights) (1::real)"
  from a obtain ms mt A0 where ms: "np_max source = Inr ms" and mt: "np_max target = Inr mt"
    and c: "csr_matrix_coo weights ?row ?col (int (max (ms + 1) (mt + 1))) = Inr A0"
    and g: "g = complete_graph (max (ms + 1) (mt + 1)) (list_ex (\<lambda>x. x \<noteq> 1) (data A0))
                   (if is_symmetric A0 then A0 else symmetrized A0)"
    by (auto simp add: list_to_gl_def Let_def symmetrize_and_finish_result split: sum.splits)
  let ?n = "max (ms + 1) (mt + 1)"
  let ?st = "\<lambda>i j. (int i, int j) \<in> set (zip ?row ?col)"
  from c have len: "length ?row = length weights" "length ?col = length weights"
    by (simp_all add: csr_matrix_coo_def split: if_splits)
  have A0: "A0 = csr_build ?n ?st (directed_weight ?row ?col weights)"
    using csr_matrix_coo_Inr[OF c] by (simp only: nat_int)
  from c have "csr_matrix_coo ?u ?row ?col (int ?n)
      = Inr (csr_build (nat (int ?n)) ?st (directed_weight ?row ?col ?u))"
    by (simp add: csr_matrix_coo_def split: if_splits)
  then have c1: "csr_matrix_coo ?u ?row ?col (int ?n)
      = Inr (csr_build ?n ?st (directed_weight ?row ?col ?u))"
    by (simp only: nat_int)
  have d: "distinct (zip ?row ?col)" by (rule distinct_zip_int[OF dist])
  have p: "0 < directed_weight ?row ?col weights i j" if "?st i j" for i j
    using directed_weight_distinct[OF d len that] pos by simp
  have o: "directed_weight ?row ?col ?u i j = 1" if "?st i j" for i j
    using directed_weight_distinct[OF d _ _ that, of ?u] len by simp
  note up = unit_pattern[of ?n ?st "directed_weight ?row ?col weights" "directed_weight ?row ?col ?u",
      OF p o, folded A0]
  let ?A1 = "csr_build ?n ?st (directed_weight ?row ?col ?u)"
  have "list_to_gl self' source target ?u
      = Inr (complete_graph ?n (list_ex (\<lambda>x. x \<noteq> 1) (data ?A1))
              (if is_symmetric ?A1 then ?A1 else symmetrized ?A1))"
    by (simp only: list_to_gl_def Let_def ms mt sum.case c1 symmetrize_and_finish_result)
  then have "list_to_gl self' source target ?u
      = Inr (complete_graph ?n False
              ((if is_symmetric A0 then A0 else symmetrized A0)
                 \<lparr>data := replicate (length (data (if is_symmetric A0 then A0 else symmetrized A0))) 1\<rparr>))"
    by (simp only: up)
  then show ?thesis by (simp only: g discard_complete_graph)
qed

lemma stats_complete_graph:
  "d (complete_graph n w A) = csr_sum_axis1 A" "vol_G (complete_graph n w A) = sum_list (csr_sum_axis1 A)"
  by (simp_all add: complete_graph_def compute_statistics_def Let_def)

lemma coo_dup:
  "csr_matrix_coo [2, 3] [0, 0] [1, 1] 2 = Inr dup_csr0" "\<not> is_symmetric dup_csr0"
  "list_ex (\<lambda>x. x \<noteq> 1) (data dup_csr0)" "symmetrized dup_csr0 = dup_csr"
  by code_simp+

lemma coo_dup_unit:
  "csr_matrix_coo [1, 1] [0, 0] [1, 1] 2 = Inr dup_unit_csr0" "\<not> is_symmetric dup_unit_csr0"
  "list_ex (\<lambda>x. x \<noteq> 1) (data dup_unit_csr0)" "symmetrized dup_unit_csr0 = dup_unit_csr"
  by code_simp+

lemma list_to_gl_dup: "list_to_gl no_attrs [0, 0] [1, 1] [2, 3] = Inr dup_graph"
  using coo_dup(2,3)
  by (simp add: list_to_gl_def np_max_def coo_dup(1,4) symmetrize_and_finish_result Let_def dup_graph_def)
     (simp add: eval_nat_numeral)

lemma list_to_gl_dup_unit: "list_to_gl no_attrs [0, 0] [1, 1] [1, 1] = Inr dup_unit_graph"
  using coo_dup_unit(2,3)
  by (simp add: list_to_gl_def np_max_def coo_dup_unit(1,4) symmetrize_and_finish_result Let_def
      dup_unit_graph_def)
     (simp add: eval_nat_numeral)

lemma discard_dup: "discard_weights dup_graph = complete_graph 2 False dup_ones_csr"
  by (simp add: dup_graph_def discard_complete_graph dup_csr_def dup_ones_csr_def eval_nat_numeral)

lemma dup_values:
  "csr_sum_axis1 dup_ones_csr = [1, 1]" "internal_weight dup_ones_csr [0] = 0"
  "csr_sum_axis1 dup_unit_csr = [2, 2]" "internal_weight dup_unit_csr [0] = 0"
  "csr_wf dup_ones_csr" "csr_wf dup_unit_csr" "shape dup_ones_csr = 2" "shape dup_unit_csr = 2"
  by code_simp+

lemma dup_scores:
  "set_scores (complete_graph 2 False dup_ones_csr) [0] False =
     Inr \<lparr>voltrue = 1, cut = 1, voleff = 1, sizetrue = 1, sizeeff = 1, edgestrue = 0,
          edgeseff = 0, cond = 1, isop = 1\<rparr>"
  "set_scores dup_unit_graph [0] False =
     Inr \<lparr>voltrue = 2, cut = 2, voleff = 2, sizetrue = 1, sizeeff = 1, edgestrue = 0,
          edgeseff = 0, cond = 1, isop = 2\<rparr>"
proof -
  have i1: "graph_inv (complete_graph 2 False dup_ones_csr)"
    by (rule graph_inv_complete_graph) (simp_all add: dup_values)
  have i2: "graph_inv dup_unit_graph"
    unfolding dup_unit_graph_def by (rule graph_inv_complete_graph) (simp_all add: dup_values)
  have r1: "\<forall>r\<in>set [0 :: int]. 0 \<le> r \<and> r < int (num_vertices (complete_graph 2 False dup_ones_csr))"
    by simp
  have r2: "\<forall>r\<in>set [0 :: int]. 0 \<le> r \<and> r < int (num_vertices dup_unit_graph)"
    by (simp add: dup_unit_graph_def)
  show "set_scores (complete_graph 2 False dup_ones_csr) [0] False =
     Inr \<lparr>voltrue = 1, cut = 1, voleff = 1, sizetrue = 1, sizeeff = 1, edgestrue = 0,
          edgeseff = 0, cond = 1, isop = 1\<rparr>"
    unfolding set_scores_reference_eq[OF i1 r1]
    by (simp add: finish_scores_def Let_def stats_complete_graph dup_values)
  show "set_scores dup_unit_graph [0] False =
     Inr \<lparr>voltrue = 2, cut = 2, voleff = 2, sizetrue = 1, sizeeff = 1, edgestrue = 0,
          edgeseff = 0, cond = 1, isop = 2\<rparr>"
    unfolding set_scores_reference_eq[OF i2 r2]
    by (simp add: finish_scores_def Let_def dup_unit_graph_def stats_complete_graph dup_values)
qed

text \<open>
  Claim C8, as stated, fails in its second half. For the edge list \<open>(0, 1, 2), (0, 1, 3)\<close> the
  constructor sums the repeated pair, so after \<^verbatim>\<open>discard_weights\<close> the set \<open>{0}\<close> has volume \<open>1\<close>,
  while the graph rebuilt from the same list with unit weights stores weight \<open>2\<close> and gives
  volume \<open>2\<close>.
\<close>

theorem discard_weights_duplicates_counterexample:
  "list_to_gl no_attrs [0, 0] [1, 1] [2, 3] = Inr dup_graph \<and> weighted dup_graph
   \<and> list_to_gl no_attrs [0, 0] [1, 1] [1, 1] = Inr dup_unit_graph
   \<and> set_scores (discard_weights dup_graph) [0] False =
       Inr \<lparr>voltrue = 1, cut = 1, voleff = 1, sizetrue = 1, sizeeff = 1, edgestrue = 0,
            edgeseff = 0, cond = 1, isop = 1\<rparr>
   \<and> set_scores dup_unit_graph [0] False =
       Inr \<lparr>voltrue = 2, cut = 2, voleff = 2, sizetrue = 1, sizeeff = 1, edgestrue = 0,
            edgeseff = 0, cond = 1, isop = 2\<rparr>"
  using list_to_gl_dup list_to_gl_dup_unit dup_scores
  by (simp add: discard_dup) (simp add: dup_graph_def complete_graph_def compute_statistics_def Let_def)

text \<open>
  Claim C8, amended. For a graph built by \<^verbatim>\<open>list_to_gl\<close>, \<^verbatim>\<open>discard_weights\<close> sets every
  stored weight to \<open>1\<close>, clears the weighted flag and leaves the statistics consistent with
  the new weights. If moreover no \<open>(source, target)\<close> pair is repeated in the edge list and
  every weight is positive, rebuilding from the same list with unit weights gives exactly
  the graph \<^verbatim>\<open>discard_weights\<close> produces, hence the same scores for every vertex list and
  either strategy.
\<close>

theorem discard_weights_spec:
  "(list_to_gl self source target weights = Inr g \<longrightarrow>
      data (adjacency_matrix (discard_weights g)) = replicate (num_edges g) 1
      \<and> \<not> weighted (discard_weights g) \<and> graph_inv (discard_weights g))
   \<and> (list_to_gl self source target weights = Inr g \<and> distinct (zip source target)
        \<and> (\<forall>x\<in>set weights. 0 < x) \<longrightarrow>
      (\<exists>g1. list_to_gl self' source target (replicate (length weights) 1) = Inr g1
            \<and> g1 = discard_weights g
            \<and> (\<forall>R cpp. set_scores (discard_weights g) R cpp = set_scores g1 R cpp)))"
  using discard_weights_effect[OF list_to_gl_inv, of self source target weights g]
    list_to_gl_unit_weights[of self source target weights g self']
  by auto

text \<open>
  The amended C8 on the edge list \<open>(0, 1, 2), (1, 0, 3)\<close>.
\<close>

theorem discard_weights_spec_witness:
  "list_to_gl no_attrs [0, 1] [1, 0] [2, 3] = Inr asym_graph \<and> distinct (zip [0, 1 :: nat] [1, 0 :: nat])
   \<and> data (adjacency_matrix (discard_weights asym_graph)) = [1, 1]
   \<and> \<not> weighted (discard_weights asym_graph)
   \<and> list_to_gl no_attrs [0, 1] [1, 0] [1, 1] = Inr (discard_weights asym_graph)"
proof -
  have dz: "distinct (zip [0, 1 :: nat] [1, 0 :: nat])" by simp
  have ps: "\<forall>x\<in>set [2, 3 :: real]. 0 < x" by simp
  have ne: "num_edges asym_graph = 2"
    by (simp add: asym_graph_def asym_csr_def complete_graph_def compute_statistics_def Let_def)
  note t = discard_weights_spec[of no_attrs "[0, 1]" "[1, 0]" "[2, 3]" asym_graph no_attrs]
  from t list_to_gl_asym
  have a: "data (adjacency_matrix (discard_weights asym_graph)) = replicate (num_edges asym_graph) 1"
    "\<not> weighted (discard_weights asym_graph)"
    by blast+
  from t list_to_gl_asym dz ps
  have b: "list_to_gl no_attrs [0, 1] [1, 0] (replicate (length [2, 3 :: real]) 1) = Inr (discard_weights asym_graph)"
    by blast
  have "replicate (length [2, 3 :: real]) (1::real) = [1, 1]" by (simp add: eval_nat_numeral)
  with b have c: "list_to_gl no_attrs [0, 1] [1, 0] [1, 1] = Inr (discard_weights asym_graph)" by simp
  have "replicate (num_edges asym_graph) (1::real) = [1, 1]" by (simp add: ne eval_nat_numeral)
  with a have a': "data (adjacency_matrix (discard_weights asym_graph)) = [1, 1]" by simp
  show ?thesis using list_to_gl_asym dz a' a(2) c by blast
qed

section \<open>Export to shared memory\<close>

lemma copy_to_shared_eq:
  assumes "arr_base a < length mem"
  shows "copy_to_shared mem a =
           (mem @ [mem ! arr_base a],
            \<lparr>arr_base = length mem, arr_dtype = arr_dtype a, arr_shape = arr_shape a\<rparr>,
            (length mem, arr_dtype a, arr_shape a))"
  using assms
  by (simp add: copy_to_shared_def raw_array_def np_copyto_def load_from_shared_def Let_def nth_append)

lemma to_shared_heap:
  assumes "valid_ref h r"
  shows "fst (to_shared h r) = \<lparr>arrays = exported_arrays h r, objects = (objects h)[r := exported_obj h r]\<rparr>"
proof -
  let ?ob = "objects h ! r" and ?M = "arrays h"
  from assms have b: "arr_base (o_ai ?ob) < length ?M" "arr_base (o_aj ?ob) < length ?M"
    "arr_base (o_d ?ob) < length ?M" "arr_base (o_dn ?ob) < length ?M"
    "arr_base (o_d_sqrt ?ob) < length ?M" "arr_base (o_dn_sqrt ?ob) < length ?M"
    "arr_base (m_data (o_adjacency_matrix ?ob)) < length ?M"
    by (simp_all add: valid_ref_def obj_arrays_def)
  show ?thesis
    using b
    by (simp add: to_shared_def Let_def copy_to_shared_eq nth_append exported_arrays_def
        exported_obj_def obj_arrays_def shared_copy_def csr_matrix_arrays_def ints_def
        eval_nat_numeral)
qed

lemma load_descriptor_of [simp]: "load_from_shared (descriptor_of a) = a"
  by (simp add: load_from_shared_def descriptor_of_def)

lemma to_shared_vars:
  assumes "valid_ref h r"
  shows "snd (to_shared h r) =
     (let ob = exported_obj h r
      in \<lparr>sv_ai = descriptor_of (o_ai ob), sv_aj = descriptor_of (o_aj ob),
          sv_d = descriptor_of (o_d ob), sv_dn = descriptor_of (o_dn ob),
          sv_d_sqrt = descriptor_of (o_d_sqrt ob), sv_dn_sqrt = descriptor_of (o_dn_sqrt ob),
          sv_a = descriptor_of (m_data (o_adjacency_matrix ob)),
          sv_n = o_num_vertices ob, sv_m = o_num_edges ob, sv_vol = o_vol_G ob,
          sv_weighted = o_weighted ob\<rparr>)"
proof -
  let ?ob = "objects h ! r" and ?M = "arrays h"
  from assms have b: "arr_base (o_ai ?ob) < length ?M" "arr_base (o_aj ?ob) < length ?M"
    "arr_base (o_d ?ob) < length ?M" "arr_base (o_dn ?ob) < length ?M"
    "arr_base (o_d_sqrt ?ob) < length ?M" "arr_base (o_dn_sqrt ?ob) < length ?M"
    "arr_base (m_data (o_adjacency_matrix ?ob)) < length ?M"
    by (simp_all add: valid_ref_def obj_arrays_def)
  show ?thesis
    using b
    by (simp add: to_shared_def Let_def copy_to_shared_eq nth_append
        exported_obj_def shared_copy_def descriptor_of_def eval_nat_numeral)
qed

lemma exported_reads:
  assumes "valid_ref h r"
  shows "ints (exported_arrays h r) (o_ai (exported_obj h r)) = ints (arrays h) (o_ai (objects h ! r))"
    "ints (exported_arrays h r) (o_aj (exported_obj h r)) = ints (arrays h) (o_aj (objects h ! r))"
    "floats (exported_arrays h r) (o_d (exported_obj h r)) = floats (arrays h) (o_d (objects h ! r))"
    "floats (exported_arrays h r) (o_dn (exported_obj h r)) = floats (arrays h) (o_dn (objects h ! r))"
    "floats (exported_arrays h r) (o_d_sqrt (exported_obj h r)) = floats (arrays h) (o_d_sqrt (objects h ! r))"
    "floats (exported_arrays h r) (o_dn_sqrt (exported_obj h r)) = floats (arrays h) (o_dn_sqrt (objects h ! r))"
    "floats (exported_arrays h r) (m_data (o_adjacency_matrix (exported_obj h r)))
       = floats (arrays h) (m_data (o_adjacency_matrix (objects h ! r)))"
  by (simp_all add: ints_def floats_def exported_arrays_def exported_obj_def shared_copy_def
      obj_arrays_def Let_def nth_append eval_nat_numeral)

lemma load_exported:
  assumes v: "valid_ref h r" and inv: "graph_inv (graph_at h r)"
  shows "load_graph (exported_arrays h r) (exported_obj h r) = graph_at h r"
proof -
  from inv have i: "m_indptr (o_adjacency_matrix (objects h ! r)) = ints (arrays h) (o_ai (objects h ! r))"
    "m_indices (o_adjacency_matrix (objects h ! r)) = ints (arrays h) (o_aj (objects h ! r))"
    "m_shape (o_adjacency_matrix (objects h ! r)) = o_num_vertices (objects h ! r)"
    by (simp_all add: graph_inv_def graph_at_def load_graph_def)
  have m: "m_shape (o_adjacency_matrix (exported_obj h r)) = o_num_vertices (objects h ! r)"
    "m_indptr (o_adjacency_matrix (exported_obj h r)) = ints (arrays h) (o_ai (objects h ! r))"
    "m_indices (o_adjacency_matrix (exported_obj h r)) = ints (arrays h) (o_aj (objects h ! r))"
    "o_num_vertices (exported_obj h r) = o_num_vertices (objects h ! r)"
    "o_num_edges (exported_obj h r) = o_num_edges (objects h ! r)"
    "o_weighted (exported_obj h r) = o_weighted (objects h ! r)"
    "o_vol_G (exported_obj h r) = o_vol_G (objects h ! r)"
    by (simp_all add: exported_obj_def Let_def)
  show ?thesis
    unfolding graph_at_def load_graph_def exported_reads[OF v] m i by (rule refl)
qed

lemma graph_at_to_shared:
  assumes v: "valid_ref h r" and inv: "graph_inv (graph_at h r)"
  shows "graph_at (fst (to_shared h r)) r = graph_at h r"
proof -
  have r: "r < length (objects h)" using v by (simp add: valid_ref_def)
  show ?thesis
    unfolding to_shared_heap[OF v] using load_exported[OF v inv] r
    by (simp add: graph_at_def)
qed

lemma from_shared_to_shared:
  assumes v: "valid_ref h r"
  shows "from_shared (fst (to_shared h r)) (snd (to_shared h r)) =
     (\<lparr>arrays = exported_arrays h r,
       objects = (objects h)[r := exported_obj h r] @
         [(exported_obj h r)\<lparr>o_components := None, o_number_of_components := None\<rparr>]\<rparr>,
      length (objects h))"
  unfolding to_shared_heap[OF v] to_shared_vars[OF v]
  by (simp add: from_shared_def Let_def csr_matrix_arrays_def exported_reads[OF v])
     (simp add: exported_obj_def Let_def)

section \<open>Export, round trip and the owning object\<close>

lemma new_object_eq:
  "new_object h g =
     (\<lparr>arrays = arrays h @ [FloatBuf (data (adjacency_matrix g)), FloatBuf (d g), FloatBuf (dn g),
                             FloatBuf (d_sqrt g), FloatBuf (dn_sqrt g), IntBuf (ai g), IntBuf (aj g)],
       objects = objects h @
         [\<lparr>o_num_vertices = num_vertices g, o_num_edges = num_edges g,
           o_weighted = weighted g, o_vol_G = vol_G g,
           o_adjacency_matrix =
             \<lparr>m_shape = shape (adjacency_matrix g), m_indptr = indptr (adjacency_matrix g),
              m_indices = indices (adjacency_matrix g),
              m_data = \<lparr>arr_base = length (arrays h), arr_dtype = Float64,
                        arr_shape = length (data (adjacency_matrix g))\<rparr>\<rparr>,
           o_ai = \<lparr>arr_base = length (arrays h) + 5, arr_dtype = IntType, arr_shape = length (ai g)\<rparr>,
           o_aj = \<lparr>arr_base = length (arrays h) + 6, arr_dtype = IntType, arr_shape = length (aj g)\<rparr>,
           o_d = \<lparr>arr_base = length (arrays h) + 1, arr_dtype = Float64, arr_shape = length (d g)\<rparr>,
           o_dn = \<lparr>arr_base = length (arrays h) + 2, arr_dtype = Float64, arr_shape = length (dn g)\<rparr>,
           o_d_sqrt = \<lparr>arr_base = length (arrays h) + 3, arr_dtype = Float64,
                        arr_shape = length (d_sqrt g)\<rparr>,
           o_dn_sqrt = \<lparr>arr_base = length (arrays h) + 4, arr_dtype = Float64,
                         arr_shape = length (dn_sqrt g)\<rparr>,
           o_components = None, o_number_of_components = None\<rparr>]\<rparr>,
      length (objects h))"
  by (simp add: new_object_def new_array_def Let_def buffer_dtype_def buffer_length_def)

lemma new_object_props:
  "snd (new_object h g) = length (objects h)"
  "graph_at (fst (new_object h g)) (length (objects h)) = g"
  "valid_ref (fst (new_object h g)) (length (objects h))"
  "map arr_base (obj_arrays (objects (fst (new_object h g)) ! length (objects h)))
     = [length (arrays h) + 5, length (arrays h) + 6, length (arrays h) + 1, length (arrays h) + 2,
        length (arrays h) + 3, length (arrays h) + 4, length (arrays h)]"
  "take (length (arrays h)) (arrays (fst (new_object h g))) = arrays h"
  "take (length (objects h)) (objects (fst (new_object h g))) = objects h"
  "length (objects (fst (new_object h g))) = Suc (length (objects h))"
  unfolding new_object_eq
  by (simp_all add: graph_at_def load_graph_def ints_def floats_def nth_append valid_ref_def
      obj_arrays_def)

lemma path_heap_props:
  "valid_ref path_heap 0" "graph_at path_heap 0 = path_graph" "length (arrays path_heap) = 7"
  "length (objects path_heap) = 1"
  using new_object_props(2,3,7)[of empty_heap path_graph]
  by (simp_all add: path_heap_def empty_heap_def) (simp add: new_object_eq)

text \<open>
  Claim C10. On an object whose arrays exist and whose graph satisfies the construction
  invariant, \<^verbatim>\<open>to_shared\<close> leaves the graph read through the object unchanged (every element
  and every scalar), leaves the scalars \<open>n\<close>, \<open>m\<close>, volume and weighted flag of the object
  untouched, makes the seven arrays of the object views of the seven blocks allocated by the
  call (in the order \<open>ai, aj, d, dn, d_sqrt, dn_sqrt, data\<close>), leaves the blocks that existed
  before as they were, and rebuilds the adjacency matrix over the new \<open>data\<close>, \<open>aj\<close> and \<open>ai\<close>.
\<close>

theorem to_shared_preserves_graph:
  assumes "valid_ref h self" and "graph_inv (graph_at h self)"
  shows "graph_at (fst (to_shared h self)) self = graph_at h self
    \<and> o_num_vertices (objects (fst (to_shared h self)) ! self) = o_num_vertices (objects h ! self)
    \<and> o_num_edges (objects (fst (to_shared h self)) ! self) = o_num_edges (objects h ! self)
    \<and> o_vol_G (objects (fst (to_shared h self)) ! self) = o_vol_G (objects h ! self)
    \<and> o_weighted (objects (fst (to_shared h self)) ! self) = o_weighted (objects h ! self)
    \<and> map arr_base (obj_arrays (objects (fst (to_shared h self)) ! self))
         = [length (arrays h) ..< length (arrays h) + 7]
    \<and> take (length (arrays h)) (arrays (fst (to_shared h self))) = arrays h
    \<and> m_indptr (o_adjacency_matrix (objects (fst (to_shared h self)) ! self))
         = ints (arrays (fst (to_shared h self))) (o_ai (objects (fst (to_shared h self)) ! self))
    \<and> m_indices (o_adjacency_matrix (objects (fst (to_shared h self)) ! self))
         = ints (arrays (fst (to_shared h self))) (o_aj (objects (fst (to_shared h self)) ! self))
    \<and> valid_ref (fst (to_shared h self)) self"
proof -
  have r: "self < length (objects h)" using assms(1) by (simp add: valid_ref_def)
  have ob: "objects (fst (to_shared h self)) ! self = exported_obj h self"
    and ar: "arrays (fst (to_shared h self)) = exported_arrays h self"
    and ln: "length (objects (fst (to_shared h self))) = length (objects h)"
    using r by (simp_all add: to_shared_heap[OF assms(1)])
  have bases: "map arr_base (obj_arrays (exported_obj h self)) = [length (arrays h) ..< length (arrays h) + 7]"
    by (simp add: exported_obj_def obj_arrays_def shared_copy_def Let_def upt_rec eval_nat_numeral)
  have tk: "take (length (arrays h)) (exported_arrays h self) = arrays h"
    by (simp add: exported_arrays_def)
  have le: "length (exported_arrays h self) = length (arrays h) + 7"
    by (simp add: exported_arrays_def obj_arrays_def)
  have "\<forall>b\<in>set (map arr_base (obj_arrays (exported_obj h self))). b < length (exported_arrays h self)"
    unfolding bases le by simp
  then have vr: "valid_ref (fst (to_shared h self)) self"
    using r by (simp add: valid_ref_def ob ar ln list_all_iff)
  show ?thesis
    unfolding ob ar
    using graph_at_to_shared[OF assms] bases tk exported_reads(1,2)[OF assms(1)] vr
    by (simp add: exported_obj_def Let_def ob ar)
qed

text \<open>
  C10 on the heap that holds the path graph.
\<close>

theorem to_shared_preserves_graph_witness:
  "valid_ref path_heap 0 \<and> graph_at path_heap 0 = path_graph
   \<and> graph_at (fst (to_shared path_heap 0)) 0 = path_graph
   \<and> map arr_base (obj_arrays (objects (fst (to_shared path_heap 0)) ! 0)) = [7, 8, 9, 10, 11, 12, 13]
   \<and> take 7 (arrays (fst (to_shared path_heap 0))) = arrays path_heap"
proof -
  have i: "graph_inv (graph_at path_heap 0)" by (simp add: path_heap_props graph_inv_path_graph)
  have u: "[7 ..< 7 + 7] = [7, 8, 9, 10, 11, 12, 13 :: nat]" by (simp add: upt_rec)
  from to_shared_preserves_graph[OF path_heap_props(1) i]
  show ?thesis by (simp add: path_heap_props u)
qed

text \<open>
  Claim C9. On an object whose arrays exist and whose graph satisfies the construction
  invariant, \<^verbatim>\<open>from_shared(g.to_shared())\<close> is a new object whose graph (scalars \<open>n\<close>, \<open>m\<close>,
  volume, weighted, and the arrays \<open>ai\<close>, \<open>aj\<close>, data, \<open>d\<close>, \<open>dn\<close>, \<open>d_sqrt\<close>, \<open>dn_sqrt\<close>) equals the
  graph of \<open>g\<close>; no memory is allocated by \<^verbatim>\<open>from_shared\<close>, and the arrays of the new object are
  views of the same blocks as the arrays of \<open>g\<close> after the export, which are the blocks named
  in the descriptors.
\<close>

theorem shared_round_trip:
  assumes "valid_ref h self" and "graph_inv (graph_at h self)"
  shows "snd (from_shared (fst (to_shared h self)) (snd (to_shared h self))) = length (objects h)
    \<and> graph_at (fst (from_shared (fst (to_shared h self)) (snd (to_shared h self))))
         (length (objects h)) = graph_at h self
    \<and> graph_at (fst (from_shared (fst (to_shared h self)) (snd (to_shared h self)))) self
         = graph_at h self
    \<and> arrays (fst (from_shared (fst (to_shared h self)) (snd (to_shared h self))))
         = arrays (fst (to_shared h self))
    \<and> obj_arrays (objects (fst (from_shared (fst (to_shared h self)) (snd (to_shared h self))))
                     ! length (objects h))
         = obj_arrays (objects (fst (to_shared h self)) ! self)
    \<and> map arr_base (obj_arrays (objects (fst (to_shared h self)) ! self))
         = [fst (sv_ai (snd (to_shared h self))), fst (sv_aj (snd (to_shared h self))),
            fst (sv_d (snd (to_shared h self))), fst (sv_dn (snd (to_shared h self))),
            fst (sv_d_sqrt (snd (to_shared h self))), fst (sv_dn_sqrt (snd (to_shared h self))),
            fst (sv_a (snd (to_shared h self)))]"
proof -
  have r: "self < length (objects h)" using assms(1) by (simp add: valid_ref_def)
  note fs = from_shared_to_shared[OF assms(1)]
  have l: "load_graph (exported_arrays h self)
             ((exported_obj h self)\<lparr>o_components := None, o_number_of_components := None\<rparr>)
           = graph_at h self"
    using load_exported[OF assms] by (simp add: load_graph_def)
  have ob: "objects (fst (to_shared h self)) ! self = exported_obj h self"
    using r by (simp add: to_shared_heap[OF assms(1)])
  define h1 where "h1 = fst (to_shared h self)"
  define sv where "sv = snd (to_shared h self)"
  have fs': "from_shared h1 sv =
     (\<lparr>arrays = exported_arrays h self,
       objects = (objects h)[self := exported_obj h self] @
         [(exported_obj h self)\<lparr>o_components := None, o_number_of_components := None\<rparr>]\<rparr>,
      length (objects h))"
    unfolding h1_def sv_def by (rule fs)
  have h1: "arrays h1 = exported_arrays h self" "objects h1 ! self = exported_obj h self"
    using r by (simp_all add: h1_def to_shared_heap[OF assms(1)])
  have c1: "snd (from_shared h1 sv) = length (objects h)"
    and c2: "graph_at (fst (from_shared h1 sv)) (length (objects h)) = graph_at h self"
    and c3: "graph_at (fst (from_shared h1 sv)) self = graph_at h self"
    and c4: "arrays (fst (from_shared h1 sv)) = arrays h1"
    and c5: "obj_arrays (objects (fst (from_shared h1 sv)) ! length (objects h))
         = obj_arrays (objects h1 ! self)"
    unfolding fs' fst_conv snd_conv
    using l load_exported[OF assms] r
    by (simp_all add: graph_at_def nth_append h1 obj_arrays_def)
  note c = c1 c2 c3 c4 c5
  note c1 = c(1)[unfolded h1_def sv_def] and c2 = c(2)[unfolded h1_def sv_def]
    and c3 = c(3)[unfolded h1_def sv_def] and c4 = c(4)[unfolded h1_def sv_def]
    and c5 = c(5)[unfolded h1_def sv_def]
  have c6: "map arr_base (obj_arrays (objects (fst (to_shared h self)) ! self))
         = [fst (sv_ai (snd (to_shared h self))), fst (sv_aj (snd (to_shared h self))),
            fst (sv_d (snd (to_shared h self))), fst (sv_dn (snd (to_shared h self))),
            fst (sv_d_sqrt (snd (to_shared h self))), fst (sv_dn_sqrt (snd (to_shared h self))),
            fst (sv_a (snd (to_shared h self)))]"
    by (simp add: ob to_shared_vars[OF assms(1)] obj_arrays_def Let_def descriptor_of_def)
  show ?thesis using c1 c2 c3 c4 c5 c6 by (intro conjI)
qed

text \<open>
  C9 on the heap that holds the path graph.
\<close>

theorem shared_round_trip_witness:
  "valid_ref path_heap 0 \<and> graph_at path_heap 0 = path_graph
   \<and> snd (from_shared (fst (to_shared path_heap 0)) (snd (to_shared path_heap 0))) = 1
   \<and> graph_at (fst (from_shared (fst (to_shared path_heap 0)) (snd (to_shared path_heap 0)))) 1
        = path_graph
   \<and> arrays (fst (from_shared (fst (to_shared path_heap 0)) (snd (to_shared path_heap 0))))
        = arrays (fst (to_shared path_heap 0))
   \<and> obj_arrays (objects (fst (from_shared (fst (to_shared path_heap 0)) (snd (to_shared path_heap 0)))) ! 1)
        = obj_arrays (objects (fst (to_shared path_heap 0)) ! 0)"
proof -
  have i: "graph_inv (graph_at path_heap 0)" by (simp add: path_heap_props graph_inv_path_graph)
  from shared_round_trip[OF path_heap_props(1) i]
  show ?thesis by (simp add: path_heap_props)
qed

section \<open>Validation in the constructors\<close>











section \<open>The largest component\<close>

lemma fold_best:
  "fold (\<lambda>key best. if c best < c key then key else best) ks k \<in> set (k # ks)
   \<and> (\<forall>x\<in>set (k # ks). (c x :: nat) \<le> c (fold (\<lambda>key best. if c best < c key then key else best) ks k))"
proof (induction ks arbitrary: k)
  case Nil
  then show ?case by simp
next
  case (Cons a ks)
  let ?k' = "if c k < c a then a else k"
  from Cons.IH[of ?k'] show ?case by (auto split: if_splits)
qed

lemma most_common1_max:
  assumes "xs \<noteq> []"
  shows "\<exists>key. most_common1 xs = Inr key \<and> key \<in> set xs
           \<and> (\<forall>l. count_list xs l \<le> count_list xs key)"
proof -
  have ne: "rev (remdups (rev xs)) \<noteq> []" using assms by simp
  then obtain k ks where ks: "rev (remdups (rev xs)) = k # ks" by (cases "rev (remdups (rev xs))") auto
  have st: "set (k # ks) = set xs" by (simp flip: ks)
  let ?key = "fold (\<lambda>key best. if count_list xs best < count_list xs key then key else best) ks k"
  note fb = fold_best[of "count_list xs" ks k]
  have "count_list xs l \<le> count_list xs ?key" for l
  proof (cases "l \<in> set xs")
    case True
    then show ?thesis using fb st by blast
  next
    case False
    then show ?thesis by (simp add: count_list_0_iff)
  qed
  moreover have "?key \<in> set xs" using fb st by blast
  moreover have "most_common1 xs = Inr ?key" by (simp add: most_common1_def ks)
  ultimately show ?thesis by blast
qed

lemma length_filter_nth_count:
  "length (filter (\<lambda>i. k = xs ! i) [0..<length xs]) = count_list xs k"
proof -
  have "filter ((=) k) xs = filter ((=) k) (map (\<lambda>i. xs ! i) [0..<length xs])"
    by (simp add: map_nth)
  also have "\<dots> = map (\<lambda>i. xs ! i) (filter (\<lambda>i. k = xs ! i) [0..<length xs])"
    by (simp add: filter_map o_def)
  finally have "length (filter ((=) k) xs) = length (filter (\<lambda>i. k = xs ! i) [0..<length xs])"
    by (metis length_map)
  then show ?thesis by (simp add: count_list_eq_length_filter)
qed

lemma csr_take_props:
  "csr_wf (csr_take A nodes)" "shape (csr_take A nodes) = length nodes"
  "a < length nodes \<Longrightarrow> b < length nodes \<Longrightarrow>
     csr_get (csr_take A nodes) a b = csr_get A (nodes ! a) (nodes ! b)"
  "a < length nodes \<Longrightarrow> b < length nodes \<Longrightarrow>
     csr_stored (csr_take A nodes) a b = csr_stored A (nodes ! a) (nodes ! b)"
  by (simp_all add: csr_take_def csr_wf_csr_build csr_get_csr_build csr_stored_csr_build
      csr_get_not_stored)

lemma load_graph_append:
  assumes "list_all (\<lambda>a. arr_base a < length mem) (obj_arrays ob)"
  shows "load_graph (mem @ ext) ob = load_graph mem ob"
  using assms by (simp add: load_graph_def obj_arrays_def ints_def floats_def nth_append)

lemma load_graph_components [simp]:
  "load_graph mem (ob\<lparr>o_components := c, o_number_of_components := k\<rparr>) = load_graph mem ob"
  by (simp add: load_graph_def)

lemma labels_length: "length (snd (csgraph_connected_components A)) = shape A"
  by (simp add: csgraph_connected_components_def Let_def)

lemma largest_component_connected:
  assumes "fst (csgraph_connected_components (adjacency_matrix (graph_at h self))) = 1"
  shows "result_ref (largest_component h self) = Inr self"
  using assms by (simp add: largest_component_def Let_def split_def result_ref_def)

lemma largest_component_disconnected:
  assumes v: "valid_ref h self" and inv: "graph_inv (graph_at h self)"
    and ne: "fst (csgraph_connected_components (adjacency_matrix (graph_at h self))) \<noteq> 1"
    and key: "most_common1 (snd (csgraph_connected_components (adjacency_matrix (graph_at h self)))) = Inr key"
  defines "labels \<equiv> snd (csgraph_connected_components (adjacency_matrix (graph_at h self)))"
  defines "g_copy \<equiv> complete_graph (length (label_class labels key)) (weighted (graph_at h self))
                      (csr_take (adjacency_matrix (graph_at h self)) (label_class labels key))"
  shows "\<exists>h'. largest_component h self = Inr (h', length (objects h))
           \<and> graph_at h' (length (objects h)) = g_copy
           \<and> (\<forall>a\<in>set (obj_arrays (objects h' ! length (objects h))). length (arrays h) \<le> arr_base a)
           \<and> graph_at h' self = graph_at h self
           \<and> length (objects h') = Suc (length (objects h))"
proof -
  let ?g = "graph_at h self"
  let ?cc = "csgraph_connected_components (adjacency_matrix ?g)"
  let ?h1 = "h\<lparr>objects := (objects h)
                 [self := (objects h ! self)\<lparr>o_components := Some (snd ?cc),
                                            o_number_of_components := Some (fst ?cc)\<rparr>]\<rparr>"
  have n: "num_vertices ?g = length labels"
    using inv by (simp add: labels_def labels_length graph_inv_def)
  have lc: "largest_component h self = Inr (new_object ?h1 g_copy)"
    using ne key
    by (simp add: largest_component_def Let_def split_def g_copy_def label_class_def n labels_def)
  have l1: "length (objects ?h1) = length (objects h)" "arrays ?h1 = arrays h" by simp_all
  have r: "self < length (objects h)" using v by (simp add: valid_ref_def)
  define h' where "h' = fst (new_object ?h1 g_copy)"
  have sn: "snd (new_object ?h1 g_copy) = length (objects h)"
    using new_object_props(1)[of ?h1 g_copy] by simp
  have 1: "largest_component h self = Inr (h', length (objects h))"
    unfolding lc h'_def using sn by (metis prod.collapse)
  have 2: "graph_at h' (length (objects h)) = g_copy"
    unfolding h'_def using new_object_props(2)[of ?h1 g_copy] by simp
  have "map arr_base (obj_arrays (objects h' ! length (objects h)))
     = [length (arrays h) + 5, length (arrays h) + 6, length (arrays h) + 1, length (arrays h) + 2,
        length (arrays h) + 3, length (arrays h) + 4, length (arrays h)]"
    unfolding h'_def using new_object_props(4)[of ?h1 g_copy] by simp
  then have "\<forall>b\<in>set (map arr_base (obj_arrays (objects h' ! length (objects h)))). length (arrays h) \<le> b"
    by simp
  then have 3: "\<forall>a\<in>set (obj_arrays (objects h' ! length (objects h))). length (arrays h) \<le> arr_base a"
    by simp
  have ob: "objects h' ! self = (objects h ! self)\<lparr>o_components := Some (snd ?cc),
                                            o_number_of_components := Some (fst ?cc)\<rparr>"
    unfolding h'_def new_object_eq using r by (simp add: nth_append)
  have "\<exists>ext. arrays h' = arrays h @ ext" unfolding h'_def new_object_eq by simp
  then obtain ext where ar: "arrays h' = arrays h @ ext" by blast
  have 4: "graph_at h' self = graph_at h self"
    using v by (simp add: graph_at_def ob ar load_graph_append valid_ref_def)
  have 5: "length (objects h') = Suc (length (objects h))"
    unfolding h'_def using new_object_props(7)[of ?h1 g_copy] by simp
  show ?thesis using 1 2 3 4 5 by blast
qed

lemma label_class_props:
  "length (label_class labels key) = count_list labels key"
  "sorted (label_class labels key)" "distinct (label_class labels key)"
  "set (label_class labels key) = {i. i < length labels \<and> labels ! i = key}"
  by (auto simp add: label_class_def length_filter_nth_count sorted_wrt_filter)

text \<open>
  Claim C4, amended. On an object whose arrays exist and whose graph satisfies the
  construction invariant: when the graph has one component, \<^verbatim>\<open>largest_component\<close> returns the
  object it was called on, not a new one. Otherwise (and with at least one vertex) it returns
  a new object, the next reference of the heap, all of whose arrays are in memory allocated
  by the call; the graph of the receiver is unchanged; the vertices kept are those whose
  component label is the most frequent one (no label occurs more often), in ascending order
  and without repetition, so vertex \<open>a\<close> of the result is the \<open>a\<close>-th surviving vertex; the
  entries of the new adjacency matrix are those of the old one at the surviving vertices; and
  the statistics of the new graph are those computed from that matrix (it is the
  \<open>complete_graph\<close> of it, and satisfies the construction invariant).
\<close>

theorem largest_component_spec:
  assumes "valid_ref h self" and "graph_inv (graph_at h self)"
  shows "(fst (csgraph_connected_components (adjacency_matrix (graph_at h self))) = 1 \<longrightarrow>
            result_ref (largest_component h self) = Inr self)
   \<and> (fst (csgraph_connected_components (adjacency_matrix (graph_at h self))) \<noteq> 1
        \<and> 0 < num_vertices (graph_at h self) \<longrightarrow>
       (\<exists>h' key labels nodes.
           labels = snd (csgraph_connected_components (adjacency_matrix (graph_at h self)))
         \<and> most_common1 labels = Inr key \<and> (\<forall>l. count_list labels l \<le> count_list labels key)
         \<and> nodes = label_class labels key
         \<and> length nodes = count_list labels key \<and> sorted nodes \<and> distinct nodes
         \<and> set nodes = {i. i < num_vertices (graph_at h self) \<and> labels ! i = key}
         \<and> largest_component h self = Inr (h', length (objects h))
         \<and> length (objects h') = Suc (length (objects h))
         \<and> (\<forall>a\<in>set (obj_arrays (objects h' ! length (objects h))). length (arrays h) \<le> arr_base a)
         \<and> graph_at h' self = graph_at h self
         \<and> graph_at h' (length (objects h))
              = complete_graph (length nodes) (weighted (graph_at h self))
                  (csr_take (adjacency_matrix (graph_at h self)) nodes)
         \<and> graph_inv (graph_at h' (length (objects h)))
         \<and> (\<forall>a<length nodes. \<forall>b<length nodes.
               csr_get (adjacency_matrix (graph_at h' (length (objects h)))) a b
                 = csr_get (adjacency_matrix (graph_at h self)) (nodes ! a) (nodes ! b)
               \<and> csr_stored (adjacency_matrix (graph_at h' (length (objects h)))) a b
                 = csr_stored (adjacency_matrix (graph_at h self)) (nodes ! a) (nodes ! b))))"
proof (intro conjI impI)
  assume "fst (csgraph_connected_components (adjacency_matrix (graph_at h self))) = 1"
  then show "result_ref (largest_component h self) = Inr self"
    by (rule largest_component_connected)
next
  let ?g = "graph_at h self"
  let ?labels = "snd (csgraph_connected_components (adjacency_matrix ?g))"
  assume a: "fst (csgraph_connected_components (adjacency_matrix ?g)) \<noteq> 1 \<and> 0 < num_vertices ?g"
  have n: "num_vertices ?g = length ?labels"
    using assms(2) by (simp add: labels_length graph_inv_def)
  then have "?labels \<noteq> []" using a by auto
  from most_common1_max[OF this] obtain key where
    key: "most_common1 ?labels = Inr key" and mx: "\<forall>l. count_list ?labels l \<le> count_list ?labels key"
    by blast
  let ?nodes = "label_class ?labels key"
  from largest_component_disconnected[OF assms _ key] a obtain h' where
    h': "largest_component h self = Inr (h', length (objects h))"
    "graph_at h' (length (objects h)) = complete_graph (length ?nodes) (weighted ?g)
                      (csr_take (adjacency_matrix ?g) ?nodes)"
    "\<forall>a\<in>set (obj_arrays (objects h' ! length (objects h))). length (arrays h) \<le> arr_base a"
    "graph_at h' self = ?g" "length (objects h') = Suc (length (objects h))"
    by blast
  have gi: "graph_inv (graph_at h' (length (objects h)))"
    unfolding h'(2) by (rule graph_inv_complete_graph) (simp_all add: csr_take_props)
  have ind: "\<forall>a<length ?nodes. \<forall>b<length ?nodes.
               csr_get (adjacency_matrix (graph_at h' (length (objects h)))) a b
                 = csr_get (adjacency_matrix ?g) (?nodes ! a) (?nodes ! b)
               \<and> csr_stored (adjacency_matrix (graph_at h' (length (objects h)))) a b
                 = csr_stored (adjacency_matrix ?g) (?nodes ! a) (?nodes ! b)"
    unfolding h'(2) by (simp add: csr_take_props)
  have st: "set ?nodes = {i. i < num_vertices ?g \<and> ?labels ! i = key}"
    unfolding n by (rule label_class_props(4))
  show "\<exists>h' key labels nodes.
           labels = snd (csgraph_connected_components (adjacency_matrix (graph_at h self)))
         \<and> most_common1 labels = Inr key \<and> (\<forall>l. count_list labels l \<le> count_list labels key)
         \<and> nodes = label_class labels key
         \<and> length nodes = count_list labels key \<and> sorted nodes \<and> distinct nodes
         \<and> set nodes = {i. i < num_vertices (graph_at h self) \<and> labels ! i = key}
         \<and> largest_component h self = Inr (h', length (objects h))
         \<and> length (objects h') = Suc (length (objects h))
         \<and> (\<forall>a\<in>set (obj_arrays (objects h' ! length (objects h))). length (arrays h) \<le> arr_base a)
         \<and> graph_at h' self = graph_at h self
         \<and> graph_at h' (length (objects h))
              = complete_graph (length nodes) (weighted (graph_at h self))
                  (csr_take (adjacency_matrix (graph_at h self)) nodes)
         \<and> graph_inv (graph_at h' (length (objects h)))
         \<and> (\<forall>a<length nodes. \<forall>b<length nodes.
               csr_get (adjacency_matrix (graph_at h' (length (objects h)))) a b
                 = csr_get (adjacency_matrix (graph_at h self)) (nodes ! a) (nodes ! b)
               \<and> csr_stored (adjacency_matrix (graph_at h' (length (objects h)))) a b
                 = csr_stored (adjacency_matrix (graph_at h self)) (nodes ! a) (nodes ! b))"
    apply (rule exI[of _ h'], rule exI[of _ key], rule exI[of _ ?labels], rule exI[of _ ?nodes])
    using key mx h' gi ind st label_class_props(1,2,3)[of ?labels key]
    by (intro conjI) (assumption | rule refl)+
qed

lemma cc_path: "csgraph_connected_components path_csr = (1, [0, 0, 0, 0])"
  by code_simp

text \<open>
  Claim C4, as stated, fails: the path graph is connected, and \<^verbatim>\<open>largest_component\<close> on the
  object that holds it returns that same object (\<^verbatim>\<open>return self\<close>), in a heap that still has a
  single object.
\<close>

theorem largest_component_alias_counterexample:
  "valid_ref path_heap 0 \<and> graph_at path_heap 0 = path_graph \<and> length (objects path_heap) = 1
   \<and> result_ref (largest_component path_heap 0) = Inr 0"
proof -
  have "fst (csgraph_connected_components (adjacency_matrix (graph_at path_heap 0))) = 1"
    using cc_path by (simp add: path_heap_props d_path_graph)
  from largest_component_connected[OF this] show ?thesis by (simp add: path_heap_props)
qed

lemma two_comp_values:
  "csr_matrix_coo [1] [1] [2] 3 = Inr two_comp_csr0" "\<not> is_symmetric two_comp_csr0"
  "\<not> list_ex (\<lambda>x. x \<noteq> 1) (data two_comp_csr0)" "symmetrized two_comp_csr0 = two_comp_csr"
  "csgraph_connected_components two_comp_csr = (2, [0, 1, 1])"
  "most_common1 [0, 1, 1] = Inr 1" "label_class [0, 1, 1] 1 = [1, 2]"
  "csr_take two_comp_csr [1, 2] = dup_ones_csr" "csr_wf two_comp_csr" "shape two_comp_csr = 3"
  by code_simp+

lemma list_to_gl_two_comp: "list_to_gl no_attrs [1] [2] [1] = Inr two_comp_graph"
  using two_comp_values(2,3)
  by (simp add: list_to_gl_def np_max_def two_comp_values(1,4) symmetrize_and_finish_result Let_def
      two_comp_graph_def)
     (simp add: eval_nat_numeral)

lemma two_comp_heap_props:
  "valid_ref two_comp_heap 0" "graph_at two_comp_heap 0 = two_comp_graph"
  "length (objects two_comp_heap) = 1" "graph_inv two_comp_graph"
  "adjacency_matrix two_comp_graph = two_comp_csr" "num_vertices two_comp_graph = 3"
  "\<not> weighted two_comp_graph"
proof -
  show "valid_ref two_comp_heap 0" "graph_at two_comp_heap 0 = two_comp_graph"
    "length (objects two_comp_heap) = 1"
    using new_object_props(2,3,7)[of empty_heap two_comp_graph]
    by (simp_all add: two_comp_heap_def empty_heap_def)
  show "graph_inv two_comp_graph"
    unfolding two_comp_graph_def
    by (rule graph_inv_complete_graph) (simp_all add: two_comp_values)
  show "adjacency_matrix two_comp_graph = two_comp_csr" "num_vertices two_comp_graph = 3"
    "\<not> weighted two_comp_graph"
    by (simp_all add: two_comp_graph_def complete_graph_def compute_statistics_def Let_def)
qed

text \<open>
  The amended C4 on the graph built from the edge list \<open>[(1, 2, 1.0)]\<close>, which has the
  components \<open>{0}\<close> and \<open>{1, 2}\<close>: the result is a new object, and its graph is the graph of a
  single edge between the vertices \<open>0\<close> and \<open>1\<close>.
\<close>

theorem largest_component_spec_witness:
  "valid_ref two_comp_heap 0 \<and> graph_at two_comp_heap 0 = two_comp_graph
   \<and> list_to_gl no_attrs [1] [2] [1] = Inr two_comp_graph
   \<and> result_ref (largest_component two_comp_heap 0) = Inr 1
   \<and> result_graph (largest_component two_comp_heap 0) = Inr (complete_graph 2 False dup_ones_csr)"
proof -
  have i: "graph_inv (graph_at two_comp_heap 0)" by (simp add: two_comp_heap_props)
  have c: "fst (csgraph_connected_components (adjacency_matrix (graph_at two_comp_heap 0))) \<noteq> 1
        \<and> 0 < num_vertices (graph_at two_comp_heap 0)"
    using two_comp_values(5) by (simp add: two_comp_heap_props)
  from largest_component_spec[OF two_comp_heap_props(1) i] c
  obtain h' key labels nodes where
    l: "labels = snd (csgraph_connected_components (adjacency_matrix (graph_at two_comp_heap 0)))"
    and k: "most_common1 labels = Inr key" and n: "nodes = label_class labels key"
    and r: "largest_component two_comp_heap 0 = Inr (h', length (objects two_comp_heap))"
    and g: "graph_at h' (length (objects two_comp_heap))
              = complete_graph (length nodes) (weighted (graph_at two_comp_heap 0))
                  (csr_take (adjacency_matrix (graph_at two_comp_heap 0)) nodes)"
    by blast
  have l': "labels = [0, 1, 1]"
    using l two_comp_values(5) by (simp add: two_comp_heap_props)
  have k': "key = 1" using k two_comp_values(6) unfolding l' by simp
  have n': "nodes = [1, 2]" using n two_comp_values(7) unfolding l' k' by simp
  have g': "graph_at h' 1 = complete_graph 2 False dup_ones_csr"
    using g two_comp_values(8) unfolding n'
    by (simp add: two_comp_heap_props) (simp add: eval_nat_numeral)
  have r': "largest_component two_comp_heap 0 = Inr (h', 1)"
    using r by (simp add: two_comp_heap_props)
  show ?thesis
    using list_to_gl_two_comp g' by (simp add: r' result_ref_def result_graph_def two_comp_heap_props)
qed

end
